theory Spec2Isabelle
  imports Main "HOL-Library.Word"
begin

section \<open>The ledger client \<^verbatim>\<open>ContractService\<close>\<close>

text \<open>
  The client wraps the calls of an ethers contract handle. A call is a promise that
  resolves to the decoded value or rejects with an error, so the handle is a record of
  functions into a sum. The values it decodes carry \<^verbatim>\<open>bigint\<close> numbers (integers) and
  addresses as strings. The JavaScript conversions \<^verbatim>\<open>Number\<close> and \<^verbatim>\<open>toString\<close> are
  taken as given functions. Logging is left out.
\<close>

record RawIPItem =
  itemId :: int
  title :: string
  description :: string
  blobId :: string
  owner :: string
  price :: int
  rentalPrice :: int
  isActive :: bool
  createdAt :: int
  totalRentals :: int
  totalRevenue :: int

record RawRental =
  rentalId :: int
  itemId :: int
  renter :: string
  startTime :: int
  endTime :: int
  amountPaid :: int
  isActive :: bool

record RawOwnershipRecord =
  owner :: string
  timestamp :: int
  price :: int

record 'num IPItem_js =
  itemId :: 'num
  title :: string
  description :: string
  blobId :: string
  owner :: string
  price :: string
  rentalPrice :: string
  isActive :: bool
  createdAt :: 'num
  totalRentals :: 'num
  totalRevenue :: string

record 'num Rental_js =
  rentalId :: 'num
  itemId :: 'num
  renter :: string
  startTime :: 'num
  endTime :: 'num
  amountPaid :: string
  isActive :: bool

record 'num OwnershipRecord_js =
  owner :: string
  timestamp :: 'num
  price :: string

record 'num js =
  Number :: "int \<Rightarrow> 'num"
  toString :: "int \<Rightarrow> string"

record ('num, 'err) contract =
  call_getItem :: "'num \<Rightarrow> 'err + RawIPItem"
  call_getRental :: "'num \<Rightarrow> 'err + RawRental"
  call_getActiveItems :: "'num \<Rightarrow> 'num \<Rightarrow> 'err + RawIPItem list"
  call_getUserItems :: "string \<Rightarrow> 'err + int list"
  call_getUserRentals :: "string \<Rightarrow> 'err + int list"
  call_getItemRenters :: "'num \<Rightarrow> 'err + string list"
  call_getOwnershipHistory :: "'num \<Rightarrow> 'err + RawOwnershipRecord list"
  call_hasActiveRental :: "'num \<Rightarrow> string \<Rightarrow> 'err + bool"
  call_getTotalItems :: "'err + int"
  call_getTotalRentals :: "'err + int"

definition convert_item :: "'num js \<Rightarrow> RawIPItem \<Rightarrow> 'num IPItem_js" where
  "convert_item j item =
     \<lparr>IPItem_js.itemId = Number j (RawIPItem.itemId item),
      title = RawIPItem.title item,
      description = RawIPItem.description item,
      blobId = RawIPItem.blobId item,
      IPItem_js.owner = RawIPItem.owner item,
      IPItem_js.price = toString j (RawIPItem.price item),
      rentalPrice = toString j (RawIPItem.rentalPrice item),
      IPItem_js.isActive = RawIPItem.isActive item,
      createdAt = Number j (RawIPItem.createdAt item),
      totalRentals = Number j (RawIPItem.totalRentals item),
      totalRevenue = toString j (RawIPItem.totalRevenue item)\<rparr>"

definition ContractService_getItem ::
  "'num js \<Rightarrow> ('num, 'err) contract \<Rightarrow> 'num \<Rightarrow> 'err + 'num IPItem_js" where
  "ContractService_getItem j c itemId' =
     (case call_getItem c itemId' of
        Inl err \<Rightarrow> Inl err
      | Inr item \<Rightarrow> Inr (convert_item j item))"

definition ContractService_getRental ::
  "'num js \<Rightarrow> ('num, 'err) contract \<Rightarrow> 'num \<Rightarrow> 'err + 'num Rental_js" where
  "ContractService_getRental j c rentalId' =
     (case call_getRental c rentalId' of
        Inl err \<Rightarrow> Inl err
      | Inr rental \<Rightarrow>
          Inr \<lparr>Rental_js.rentalId = Number j (RawRental.rentalId rental),
               Rental_js.itemId = Number j (RawRental.itemId rental),
               renter = RawRental.renter rental,
               startTime = Number j (RawRental.startTime rental),
               endTime = Number j (RawRental.endTime rental),
               amountPaid = toString j (RawRental.amountPaid rental),
               Rental_js.isActive = RawRental.isActive rental\<rparr>)"

definition ContractService_getActiveItems ::
  "'num js \<Rightarrow> ('num, 'err) contract \<Rightarrow> 'num \<Rightarrow> 'num \<Rightarrow> 'err + 'num IPItem_js list" where
  "ContractService_getActiveItems j c offset limit =
     (case call_getActiveItems c offset limit of
        Inl err \<Rightarrow> Inr []
      | Inr items' \<Rightarrow> Inr (map (convert_item j) items'))"

definition ContractService_getUserItems ::
  "'num js \<Rightarrow> ('num, 'err) contract \<Rightarrow> string \<Rightarrow> 'err + 'num list" where
  "ContractService_getUserItems j c userAddress =
     (case call_getUserItems c userAddress of
        Inl err \<Rightarrow> Inr []
      | Inr itemIds' \<Rightarrow> Inr (map (Number j) itemIds'))"

definition ContractService_getUserRentals ::
  "'num js \<Rightarrow> ('num, 'err) contract \<Rightarrow> string \<Rightarrow> 'err + 'num list" where
  "ContractService_getUserRentals j c userAddress =
     (case call_getUserRentals c userAddress of
        Inl err \<Rightarrow> Inr []
      | Inr rentalIds' \<Rightarrow> Inr (map (Number j) rentalIds'))"

definition ContractService_getItemRenters ::
  "('num, 'err) contract \<Rightarrow> 'num \<Rightarrow> 'err + string list" where
  "ContractService_getItemRenters c itemId' = call_getItemRenters c itemId'"

definition ContractService_getOwnershipHistory ::
  "'num js \<Rightarrow> ('num, 'err) contract \<Rightarrow> 'num \<Rightarrow> 'err + 'num OwnershipRecord_js list" where
  "ContractService_getOwnershipHistory j c itemId' =
     (case call_getOwnershipHistory c itemId' of
        Inl err \<Rightarrow> Inl err
      | Inr history \<Rightarrow>
          Inr (map (\<lambda>record'.
                 \<lparr>OwnershipRecord_js.owner = RawOwnershipRecord.owner record',
                  timestamp = Number j (RawOwnershipRecord.timestamp record'),
                  OwnershipRecord_js.price = toString j (RawOwnershipRecord.price record')\<rparr>)
               history))"

definition ContractService_hasActiveRental ::
  "('num, 'err) contract \<Rightarrow> 'num \<Rightarrow> string \<Rightarrow> 'err + bool" where
  "ContractService_hasActiveRental c itemId' userAddress =
     (case call_hasActiveRental c itemId' userAddress of
        Inl err \<Rightarrow> Inr False
      | Inr result \<Rightarrow> Inr result)"

definition ContractService_getTotalItems ::
  "'num js \<Rightarrow> ('num, 'err) contract \<Rightarrow> 'err + 'num" where
  "ContractService_getTotalItems j c =
     (case call_getTotalItems c of
        Inl err \<Rightarrow> Inr (Number j 0)
      | Inr total' \<Rightarrow> Inr (Number j total'))"

definition ContractService_getTotalRentals ::
  "'num js \<Rightarrow> ('num, 'err) contract \<Rightarrow> 'err + 'num" where
  "ContractService_getTotalRentals j c =
     (case call_getTotalRentals c of
        Inl err \<Rightarrow> Inr (Number j 0)
      | Inr total' \<Rightarrow> Inr (Number j total'))"

section \<open>The marketplace ledger \<^verbatim>\<open>IPRightsStore.sol\<close>\<close>

text \<open>
  The contract is embedded as pure functions on a record of its storage. A Solidity
  \<^verbatim>\<open>uint256\<close> is a 256-bit word and an \<^verbatim>\<open>address\<close> a 160-bit word. The compiler is
  0.8.x, so \<open>+\<close>, \<open>-\<close>, \<open>*\<close> and \<open>++\<close> abort the call with a panic instead of wrapping;
  the checked operations below return that panic as a value. A storage mapping is a total
  function whose unwritten slots hold the zero value of the value type, a dynamic storage
  array is a list and \<^verbatim>\<open>push\<close> appends to it.

  A call that reverts leaves the storage as it was: every state-changing function returns
  either an error or the storage after the call, and a failed call yields no new storage.
  Events and gas are left out: no call runs out of gas, and nothing is logged.
\<close>

type_synonym uint256 = "256 word"
type_synonym address = "160 word"

datatype error =
  Revert string
  | Panic
  | TransferFailed
  | NonPayable
  | ReentrantCall

record IPItem =
  itemId :: uint256
  title :: string
  description :: string
  blobId :: string
  owner :: address
  price :: uint256
  rentalPrice :: uint256
  isActive :: bool
  createdAt :: uint256
  totalRentals :: uint256
  totalRevenue :: uint256

record Rental =
  rentalId :: uint256
  itemId :: uint256
  renter :: address
  startTime :: uint256
  endTime :: uint256
  amountPaid :: uint256
  isActive :: bool

record OwnershipRecord =
  owner :: address
  timestamp :: uint256
  price :: uint256

text \<open>
  The storage of the contract. \<open>itemIds\<close> and \<open>rentalIds\<close> are the values of the two
  \<^verbatim>\<open>Counters.Counter\<close> variables, \<open>entered\<close> is the status word of
  \<^verbatim>\<open>ReentrancyGuard\<close>.
\<close>

record ledger =
  itemIds :: uint256
  rentalIds :: uint256
  items :: "uint256 \<Rightarrow> IPItem"
  rentals :: "uint256 \<Rightarrow> Rental"
  ownershipHistory :: "uint256 \<Rightarrow> OwnershipRecord list"
  userItems :: "address \<Rightarrow> uint256 list"
  userRentals :: "address \<Rightarrow> uint256 list"
  hasRented :: "uint256 \<Rightarrow> address \<Rightarrow> bool"
  itemRenters :: "uint256 \<Rightarrow> address list"
  entered :: bool

text \<open>
  What a call sees of its transaction and block: \<^verbatim>\<open>msg.sender\<close>, \<^verbatim>\<open>msg.value\<close>,
  \<^verbatim>\<open>block.timestamp\<close>, and whether an account accepts a plain ether transfer of a given
  amount (\<^verbatim>\<open>transfer\<close> forwards 2300 gas and reverts the whole call when the recipient
  does not accept).
\<close>

record env =
  msg_sender :: address
  msg_value :: uint256
  block_timestamp :: uint256
  accepts :: "address \<Rightarrow> uint256 \<Rightarrow> bool"

type_synonym payout = "address \<times> uint256"

definition zero_item :: IPItem where
  "zero_item = \<lparr>IPItem.itemId = 0, title = [], description = [], blobId = [],
     IPItem.owner = 0, IPItem.price = 0, rentalPrice = 0, IPItem.isActive = False,
     createdAt = 0, totalRentals = 0, totalRevenue = 0\<rparr>"

definition zero_rental :: Rental where
  "zero_rental = \<lparr>rentalId = 0, Rental.itemId = 0, renter = 0, startTime = 0, endTime = 0,
     amountPaid = 0, Rental.isActive = False\<rparr>"

text \<open>The storage after the constructor: every slot is zero.\<close>

definition init :: ledger where
  "init = \<lparr>itemIds = 0, rentalIds = 0, items = (\<lambda>_. zero_item), rentals = (\<lambda>_. zero_rental),
     ownershipHistory = (\<lambda>_. []), userItems = (\<lambda>_. []), userRentals = (\<lambda>_. []),
     hasRented = (\<lambda>_ _. False), itemRenters = (\<lambda>_. []), entered = False\<rparr>"

subsection \<open>Checked arithmetic, \<^verbatim>\<open>require\<close> and transfers\<close>

definition checked_add :: "uint256 \<Rightarrow> uint256 \<Rightarrow> error + uint256" where
  "checked_add a b = (if unat a + unat b < 2 ^ 256 then Inr (a + b) else Inl Panic)"

definition checked_sub :: "uint256 \<Rightarrow> uint256 \<Rightarrow> error + uint256" where
  "checked_sub a b = (if b \<le> a then Inr (a - b) else Inl Panic)"

definition checked_mul :: "uint256 \<Rightarrow> uint256 \<Rightarrow> error + uint256" where
  "checked_mul a b = (if unat a * unat b < 2 ^ 256 then Inr (a * b) else Inl Panic)"

definition checked_div :: "uint256 \<Rightarrow> uint256 \<Rightarrow> error + uint256" where
  "checked_div a b = (if b = 0 then Inl Panic else Inr (a div b))"

definition bind_err :: "error + 'a \<Rightarrow> ('a \<Rightarrow> error + 'b) \<Rightarrow> error + 'b" where
  "bind_err r k = (case r of Inl e \<Rightarrow> Inl e | Inr v \<Rightarrow> k v)"

definition require :: "bool \<Rightarrow> string \<Rightarrow> (error + 'a) \<Rightarrow> error + 'a" where
  "require c m k = (if c then k else Inl (Revert m))"

definition transfer :: "env \<Rightarrow> address \<Rightarrow> uint256 \<Rightarrow> (error + 'a) \<Rightarrow> error + 'a" where
  "transfer e to amount k = (if accepts e to amount then k else Inl TransferFailed)"

definition one_day :: uint256 where
  "one_day = 86400"

definition days_365 :: uint256 where
  "days_365 = 31536000"

text \<open>
  \<^verbatim>\<open>Counters.increment\<close> of the OpenZeppelin library adds one to the stored value inside
  an \<^verbatim>\<open>unchecked\<close> block, and \<^verbatim>\<open>Counters.current\<close> reads the value.
\<close>

definition increment :: "uint256 \<Rightarrow> uint256" where
  "increment c = c + 1"

subsection \<open>Modifiers\<close>

text \<open>A modifier takes the rest of the call (the \<^verbatim>\<open>_;\<close>) as its last argument.\<close>

definition itemExists :: "ledger \<Rightarrow> uint256 \<Rightarrow> (error + 'a) \<Rightarrow> error + 'a" where
  "itemExists s i body =
     require (i \<le> itemIds s) ''Item does not exist''
       (require (IPItem.isActive (items s i)) ''Item is not active'' body)"

definition onlyItemOwner :: "env \<Rightarrow> ledger \<Rightarrow> uint256 \<Rightarrow> (error + 'a) \<Rightarrow> error + 'a" where
  "onlyItemOwner e s i body =
     require (IPItem.owner (items s i) = msg_sender e) ''Not the item owner'' body"

definition validRentalPeriod ::
  "env \<Rightarrow> uint256 \<Rightarrow> uint256 \<Rightarrow> (error + 'a) \<Rightarrow> error + 'a" where
  "validRentalPeriod e start_t end_t body =
     require (start_t \<ge> block_timestamp e) ''Start time must be in the future''
       (require (end_t > start_t) ''End time must be after start time''
          (bind_err (checked_add (block_timestamp e) days_365) (\<lambda>latest.
             require (end_t \<le> latest) ''Rental period too long'' body)))"

definition nonReentrant ::
  "ledger \<Rightarrow> (ledger \<Rightarrow> error + ledger \<times> 'a) \<Rightarrow> error + ledger \<times> 'a" where
  "nonReentrant s body =
     (if entered s then Inl ReentrantCall
      else bind_err (body (s\<lparr>entered := True\<rparr>)) (\<lambda>(s', r). Inr (s'\<lparr>entered := False\<rparr>, r)))"

definition nonpayable :: "env \<Rightarrow> (error + 'a) \<Rightarrow> error + 'a" where
  "nonpayable e body = (if msg_value e = 0 then body else Inl NonPayable)"

subsection \<open>State-changing functions\<close>

definition createItem ::
  "env \<Rightarrow> string \<Rightarrow> string \<Rightarrow> string \<Rightarrow> uint256 \<Rightarrow> uint256 \<Rightarrow> ledger \<Rightarrow> error + ledger \<times> uint256" where
  "createItem e title' description' blobId' price' rentalPrice' s =
     nonpayable e
      (require (length title' > 0) ''Title cannot be empty''
      (require (length blobId' > 0) ''Blob ID cannot be empty''
      (require (price' > 0 \<or> rentalPrice' > 0) ''Must set either purchase or rental price''
      (let s1 = s\<lparr>itemIds := increment (itemIds s)\<rparr>;
           newItemId = itemIds s1;
           s2 = s1\<lparr>items := (items s1)(newItemId :=
                  \<lparr>IPItem.itemId = newItemId, title = title', description = description',
                   blobId = blobId', IPItem.owner = msg_sender e, IPItem.price = price',
                   rentalPrice = rentalPrice', IPItem.isActive = True,
                   createdAt = block_timestamp e, totalRentals = 0, totalRevenue = 0\<rparr>)\<rparr>;
           s3 = s2\<lparr>userItems := (userItems s2)
                  (msg_sender e := userItems s2 (msg_sender e) @ [newItemId])\<rparr>;
           s4 = s3\<lparr>ownershipHistory := (ownershipHistory s3)
                  (newItemId := ownershipHistory s3 newItemId @
                     [\<lparr>OwnershipRecord.owner = msg_sender e, timestamp = block_timestamp e,
                       OwnershipRecord.price = 0\<rparr>])\<rparr>
       in Inr (s4, newItemId)))))"

text \<open>
  \<open>purchaseItem\<close> returns the new storage and the ether transfers it made, in order.
  The balance of the contract always covers them: it holds at least \<^verbatim>\<open>msg.value\<close>
  during the call, and the price and the refund add up to \<^verbatim>\<open>msg.value\<close>.
\<close>

definition purchaseItem :: "env \<Rightarrow> uint256 \<Rightarrow> ledger \<Rightarrow> error + ledger \<times> payout list" where
  "purchaseItem e i s0 =
     nonReentrant s0 (\<lambda>s.
      itemExists s i
       (let item = items s i in
        require (IPItem.price item > 0) ''Item is not for sale''
        (require (msg_value e \<ge> IPItem.price item) ''Insufficient payment''
        (require (IPItem.owner item \<noteq> msg_sender e) ''Cannot purchase your own item''
        (let previousOwner = IPItem.owner item;
             s1 = s\<lparr>items := (items s)(i := item\<lparr>IPItem.owner := msg_sender e\<rparr>)\<rparr>;
             s2 = s1\<lparr>userItems := (userItems s1)
                    (msg_sender e := userItems s1 (msg_sender e) @ [i])\<rparr>;
             item2 = items s2 i;
             s3 = s2\<lparr>ownershipHistory := (ownershipHistory s2)
                    (i := ownershipHistory s2 i @
                       [\<lparr>OwnershipRecord.owner = msg_sender e, timestamp = block_timestamp e,
                         OwnershipRecord.price = IPItem.price item2\<rparr>])\<rparr>;
             paid = (if previousOwner \<noteq> 0 then [(previousOwner, IPItem.price item2)] else []);
             refund = (if msg_value e > IPItem.price item2
                       then [(msg_sender e, msg_value e - IPItem.price item2)] else [])
         in (if previousOwner \<noteq> 0
             then transfer e previousOwner (IPItem.price item2) else (\<lambda>k. k))
             ((if msg_value e > IPItem.price item2
               then transfer e (msg_sender e) (msg_value e - IPItem.price item2)
               else (\<lambda>k. k))
              (Inr (s3, paid @ refund))))))))"

definition rentItem ::
  "env \<Rightarrow> uint256 \<Rightarrow> uint256 \<Rightarrow> uint256 \<Rightarrow> ledger \<Rightarrow> error + ledger \<times> payout list" where
  "rentItem e i start_t end_t s0 =
     nonReentrant s0 (\<lambda>s.
      itemExists s i
       (validRentalPeriod e start_t end_t
        (let item = items s i in
         require (rentalPrice item > 0) ''Item is not available for rent''
         (require (IPItem.owner item \<noteq> msg_sender e) ''Cannot rent your own item''
         (bind_err (checked_sub end_t start_t) (\<lambda>rentalDuration.
          bind_err (checked_mul rentalDuration (rentalPrice item)) (\<lambda>product.
          bind_err (checked_div product one_day) (\<lambda>totalCost.
          require (msg_value e \<ge> totalCost) ''Insufficient payment for rental''
          (let s1 = s\<lparr>rentalIds := increment (rentalIds s)\<rparr>;
               newRentalId = rentalIds s1;
               s2 = s1\<lparr>rentals := (rentals s1)(newRentalId :=
                      \<lparr>rentalId = newRentalId, Rental.itemId = i, renter = msg_sender e,
                       startTime = start_t, endTime = end_t, amountPaid = totalCost,
                       Rental.isActive = True\<rparr>)\<rparr>
           in bind_err (checked_add (totalRentals (items s2 i)) 1) (\<lambda>n.
              let s3 = s2\<lparr>items := (items s2)(i := (items s2 i)\<lparr>totalRentals := n\<rparr>)\<rparr>
              in bind_err (checked_add (totalRevenue (items s3 i)) totalCost) (\<lambda>r.
              let s4 = s3\<lparr>items := (items s3)(i := (items s3 i)\<lparr>totalRevenue := r\<rparr>)\<rparr>;
                  s5 = s4\<lparr>userRentals := (userRentals s4)
                         (msg_sender e := userRentals s4 (msg_sender e) @ [newRentalId])\<rparr>;
                  s6 = (if \<not> hasRented s5 i (msg_sender e)
                        then s5\<lparr>hasRented := (hasRented s5)
                                 (i := (hasRented s5 i)(msg_sender e := True)),
                               itemRenters := (itemRenters s5)
                                 (i := itemRenters s5 i @ [msg_sender e])\<rparr>
                        else s5);
                  payee = IPItem.owner (items s6 i)
              in transfer e payee totalCost
                  (if msg_value e > totalCost
                   then transfer e (msg_sender e) (msg_value e - totalCost)
                          (Inr (s6, [(payee, totalCost),
                                     (msg_sender e, msg_value e - totalCost)]))
                   else Inr (s6, [(payee, totalCost)])))))))))))))"

definition updateItemPrices ::
  "env \<Rightarrow> uint256 \<Rightarrow> uint256 \<Rightarrow> uint256 \<Rightarrow> ledger \<Rightarrow> error + ledger \<times> unit" where
  "updateItemPrices e i newPrice newRentalPrice s =
     nonpayable e
      (onlyItemOwner e s i
       (itemExists s i
        (require (newPrice > 0 \<or> newRentalPrice > 0) ''Must set either purchase or rental price''
         (Inr (s\<lparr>items := (items s)(i := (items s i)
                  \<lparr>IPItem.price := newPrice, rentalPrice := newRentalPrice\<rparr>)\<rparr>, ())))))"

definition deactivateItem :: "env \<Rightarrow> uint256 \<Rightarrow> ledger \<Rightarrow> error + ledger \<times> unit" where
  "deactivateItem e i s =
     nonpayable e
      (onlyItemOwner e s i
       (itemExists s i
        (Inr (s\<lparr>items := (items s)(i := (items s i)\<lparr>IPItem.isActive := False\<rparr>)\<rparr>, ()))))"

subsection \<open>Views\<close>

definition getItem :: "ledger \<Rightarrow> uint256 \<Rightarrow> error + IPItem" where
  "getItem s i = require (i \<le> itemIds s) ''Item does not exist'' (Inr (items s i))"

definition getRental :: "ledger \<Rightarrow> uint256 \<Rightarrow> error + Rental" where
  "getRental s r = require (r \<le> rentalIds s) ''Rental does not exist'' (Inr (rentals s r))"

definition getOwnershipHistory :: "ledger \<Rightarrow> uint256 \<Rightarrow> error + OwnershipRecord list" where
  "getOwnershipHistory s i =
     require (i \<le> itemIds s) ''Item does not exist'' (Inr (ownershipHistory s i))"

definition getItemRenters :: "ledger \<Rightarrow> uint256 \<Rightarrow> error + address list" where
  "getItemRenters s i =
     require (i \<le> itemIds s) ''Item does not exist'' (Inr (itemRenters s i))"

definition getUserItems :: "ledger \<Rightarrow> address \<Rightarrow> uint256 list" where
  "getUserItems s u = userItems s u"

definition getUserRentals :: "ledger \<Rightarrow> address \<Rightarrow> uint256 list" where
  "getUserRentals s u = userRentals s u"

definition getTotalItems :: "ledger \<Rightarrow> uint256" where
  "getTotalItems s = itemIds s"

definition getTotalRentals :: "ledger \<Rightarrow> uint256" where
  "getTotalRentals s = rentalIds s"

text \<open>
  The loop of \<open>hasActiveRental\<close> walks the copy of the caller's rental identifiers from
  the first to the last and returns at the first rental that matches.
\<close>

fun hasActiveRental_loop :: "ledger \<Rightarrow> uint256 \<Rightarrow> uint256 \<Rightarrow> uint256 list \<Rightarrow> bool" where
  "hasActiveRental_loop s now i [] = False"
| "hasActiveRental_loop s now i (r # userRentalIds) =
     (let rental = rentals s r in
      if Rental.itemId rental = i \<and> Rental.isActive rental \<and>
         now \<ge> startTime rental \<and> now \<le> endTime rental
      then True
      else hasActiveRental_loop s now i userRentalIds)"

definition hasActiveRental :: "ledger \<Rightarrow> uint256 \<Rightarrow> uint256 \<Rightarrow> address \<Rightarrow> bool" where
  "hasActiveRental s now i u = hasActiveRental_loop s now i (userRentals s u)"

text \<open>
  \<open>getActiveItems\<close> has two loops over memory arrays. The first writes the active items
  of the window into \<open>activeItems\<close> at index \<open>count\<close>; an array access out of range and
  an overflowing \<^verbatim>\<open>count++\<close> or \<^verbatim>\<open>i++\<close> are panics. The second copies the first
  \<open>count\<close> entries into the result; its \<^verbatim>\<open>i++\<close> runs only while \<open>i < count\<close> and
  cannot overflow.
\<close>

definition collect ::
  "ledger \<Rightarrow> uint256 \<Rightarrow> IPItem list \<times> uint256 \<Rightarrow> error + IPItem list \<times> uint256" where
  "collect s i ac =
     (case ac of (activeItems, count) \<Rightarrow>
        if IPItem.isActive (items s i)
        then (if unat count < length activeItems
              then bind_err (checked_add count 1)
                     (\<lambda>count'. Inr (activeItems[unat count := items s i], count'))
              else Inl Panic)
        else Inr (activeItems, count))"

function scan_loop ::
  "ledger \<Rightarrow> uint256 \<Rightarrow> uint256 \<Rightarrow> IPItem list \<times> uint256 \<Rightarrow> error + IPItem list \<times> uint256" where
  "scan_loop s i end_i ac =
     (if i \<le> end_i
      then (case collect s i ac of
              Inl err \<Rightarrow> Inl err
            | Inr ac' \<Rightarrow> if i = - 1 then Inl Panic else scan_loop s (i + 1) end_i ac')
      else Inr ac)"
  by pat_completeness auto
termination
proof (relation "measure (\<lambda>(s, i, end_i, ac). Suc (unat end_i) - unat i)")
  show "wf (measure (\<lambda>(s, i, end_i, ac). Suc (unat end_i) - unat i))"
    by simp
next
  fix s :: ledger and i end_i :: uint256 and ac ac' :: "IPItem list \<times> uint256"
  assume le: "i \<le> end_i" and nm: "i \<noteq> - 1"
  from nm have "1 + i \<noteq> 0"
    using max_word_wrap [of i] by (auto simp: add.commute)
  then have "unat (1 + i) = Suc (unat i)"
    by (rule unatSuc)
  then have "unat (i + 1) = unat i + 1"
    by (simp add: add.commute)
  moreover from le have "unat i \<le> unat end_i"
    by (simp add: word_le_nat_alt)
  ultimately show "((s, i + 1, end_i, ac'), (s, i, end_i, ac))
      \<in> measure (\<lambda>(s, i, end_i, ac). Suc (unat end_i) - unat i)"
    by simp
qed

function copy_loop ::
  "IPItem list \<Rightarrow> uint256 \<Rightarrow> uint256 \<Rightarrow> IPItem list \<Rightarrow> error + IPItem list" where
  "copy_loop activeItems count i result =
     (if i < count
      then (if unat i < length result \<and> unat i < length activeItems
            then copy_loop activeItems count (i + 1) (result[unat i := activeItems ! unat i])
            else Inl Panic)
      else Inr result)"
  by pat_completeness auto
termination
proof (relation "measure (\<lambda>(activeItems, count, i, result). unat count - unat i)")
  show "wf (measure (\<lambda>(activeItems, count, i, result). unat count - unat i))"
    by simp
next
  fix activeItems result :: "IPItem list" and count i :: uint256
  assume lt: "i < count"
  then have "i \<noteq> - 1"
    by (metis word_order.extremum_strict)
  then have "1 + i \<noteq> 0"
    using max_word_wrap [of i] by (auto simp: add.commute)
  then have "unat (1 + i) = Suc (unat i)"
    by (rule unatSuc)
  then have "unat (i + 1) = unat i + 1"
    by (simp add: add.commute)
  moreover from lt have "unat i < unat count"
    by (simp add: word_less_nat_alt)
  ultimately show "((activeItems, count, i + 1, result[unat i := activeItems ! unat i]),
       (activeItems, count, i, result))
      \<in> measure (\<lambda>(activeItems, count, i, result). unat count - unat i)"
    by simp
qed

definition getActiveItems :: "ledger \<Rightarrow> uint256 \<Rightarrow> uint256 \<Rightarrow> error + IPItem list" where
  "getActiveItems s offset limit =
     (let totalItems = itemIds s in
      require (offset < totalItems) ''Offset out of bounds''
       (bind_err (checked_add offset limit) (\<lambda>end0.
        let end_i = (if end0 > totalItems then totalItems else end0) in
        bind_err (checked_sub end_i offset) (\<lambda>n.
        let activeItems = replicate (unat n) zero_item in
        bind_err (checked_add offset 1) (\<lambda>first.
        bind_err (scan_loop s first end_i (activeItems, 0)) (\<lambda>(activeItems', count).
        let result = replicate (unat count) zero_item in
        copy_loop activeItems' count 0 result))))))"

subsection \<open>Transactions\<close>

text \<open>
  The storage after a call: a call that fails is reverted and leaves the storage it
  started from.
\<close>

definition storage_after :: "ledger \<Rightarrow> error + ledger \<times> 'a \<Rightarrow> ledger" where
  "storage_after s r = (case r of Inl err \<Rightarrow> s | Inr (s', v) \<Rightarrow> s')"

text \<open>
  The calls that write storage. \<^verbatim>\<open>emergencyWithdraw\<close> only moves the ether balance of
  the contract and touches none of the variables above.
\<close>

datatype call =
  CreateItem string string string uint256 uint256
  | PurchaseItem uint256
  | RentItem uint256 uint256 uint256
  | UpdateItemPrices uint256 uint256 uint256
  | DeactivateItem uint256

fun exec :: "env \<Rightarrow> call \<Rightarrow> ledger \<Rightarrow> ledger" where
  "exec e (CreateItem t d b p r) s = storage_after s (createItem e t d b p r s)"
| "exec e (PurchaseItem i) s = storage_after s (purchaseItem e i s)"
| "exec e (RentItem i start_t end_t) s = storage_after s (rentItem e i start_t end_t s)"
| "exec e (UpdateItemPrices i p r) s = storage_after s (updateItemPrices e i p r s)"
| "exec e (DeactivateItem i) s = storage_after s (deactivateItem e i s)"

fun run :: "(env \<times> call) list \<Rightarrow> ledger \<Rightarrow> ledger" where
  "run [] s = s"
| "run ((e, c) # txs) s = run txs (exec e c s)"

text \<open>
  A sequence of \<open>createItem\<close> calls: the identifiers returned by the calls that
  succeeded, in order, and the storage at the end.
\<close>

type_synonym create_args = "env \<times> string \<times> string \<times> string \<times> uint256 \<times> uint256"

fun createItems :: "create_args list \<Rightarrow> ledger \<Rightarrow> uint256 list \<times> ledger" where
  "createItems [] s = ([], s)"
| "createItems ((e, t, d, b, p, r) # cs) s =
     (case createItem e t d b p r s of
        Inl err \<Rightarrow> createItems cs s
      | Inr (s', newItemId) \<Rightarrow>
          (case createItems cs s' of (ids, s'') \<Rightarrow> (newItemId # ids, s'')))"

text \<open>The cost of a rental as the specification words it, on unbounded naturals.\<close>

definition spec_rental_cost :: "nat \<Rightarrow> nat \<Rightarrow> nat" where
  "spec_rental_cost durationSeconds rentalPrice' = (durationSeconds * rentalPrice') div 86400"

text \<open>
  The identifier window of \<open>getActiveItems\<close> as the specification words it:
  \<open>offset + 1 .. min (offset + limit) totalItems\<close>, on unbounded naturals.
\<close>

definition spec_window :: "nat \<Rightarrow> nat \<Rightarrow> nat \<Rightarrow> nat list" where
  "spec_window offset limit totalItems = [offset + 1 ..< Suc (min (offset + limit) totalItems)]"

text \<open>
  The rentals that the successful \<open>rentItem\<close> calls of a run have created: renter, item
  and the interval asked for.
\<close>

fun made_by :: "env \<Rightarrow> call \<Rightarrow> ledger \<Rightarrow> (address \<times> uint256 \<times> uint256 \<times> uint256) list" where
  "made_by e (RentItem i start_t end_t) s =
     (if isl (rentItem e i start_t end_t s) then [] else [(msg_sender e, i, start_t, end_t)])"
| "made_by e c s = []"

fun rentals_made ::
  "(env \<times> call) list \<Rightarrow> ledger \<Rightarrow> (address \<times> uint256 \<times> uint256 \<times> uint256) list" where
  "rentals_made [] s = []"
| "rentals_made ((e, c) # txs) s = made_by e c s @ rentals_made txs (exec e c s)"

subsection \<open>Invariants of the storage\<close>

text \<open>
  What holds of the storage after any run of fewer than \<open>2 ^ 256\<close> calls from the
  constructor: slot 0 of both mappings is unwritten, and the rental identifiers indexed
  under an account are exactly the rentals \<open>1 .. rentalIds\<close> of that account, each
  with its flag set.
\<close>

definition wf_ledger :: "ledger \<Rightarrow> bool" where
  "wf_ledger s \<longleftrightarrow>
     \<not> entered s
     \<and> items s 0 = zero_item
     \<and> rentals s 0 = zero_rental
     \<and> (\<forall>u. \<forall>r \<in> set (userRentals s u).
           r \<noteq> 0 \<and> r \<le> rentalIds s \<and> renter (rentals s r) = u \<and> Rental.isActive (rentals s r))
     \<and> (\<forall>r. r \<noteq> 0 \<and> r \<le> rentalIds s \<longrightarrow> r \<in> set (userRentals s (renter (rentals s r))))"

text \<open>The rentals \<open>1 .. rentalIds\<close> in storage: renter, item and interval.\<close>

definition stored_rentals :: "ledger \<Rightarrow> (address \<times> uint256 \<times> uint256 \<times> uint256) set" where
  "stored_rentals s =
     {(renter (rentals s r), Rental.itemId (rentals s r), startTime (rentals s r),
       endTime (rentals s r)) | r. r \<noteq> 0 \<and> r \<le> rentalIds s}"

text \<open>
  Every item \<open>1 .. itemIds\<close> is listed in the item index of its current owner.
\<close>

definition owners_indexed :: "ledger \<Rightarrow> bool" where
  "owners_indexed s \<longleftrightarrow>
     (\<forall>i. i \<noteq> 0 \<and> i \<le> itemIds s \<longrightarrow> i \<in> set (userItems s (IPItem.owner (items s i))))"

section \<open>Example states\<close>

text \<open>
  Two accounts whose transfers are always accepted, at block time 1000; the ledger after
  the first of them has registered one item, and after it has registered two, the second
  not for sale.
\<close>

definition alice :: env where
  "alice = \<lparr>msg_sender = 10, msg_value = 0, block_timestamp = 1000, accepts = (\<lambda>_ _. True)\<rparr>"

definition bob :: env where
  "bob = \<lparr>msg_sender = 11, msg_value = 150, block_timestamp = 1000, accepts = (\<lambda>_ _. True)\<rparr>"

definition one_item :: ledger where
  "one_item = exec alice (CreateItem ''Paper A'' ''A paper'' ''blob-1'' 100 100) init"

definition two_items :: ledger where
  "two_items = run [(alice, CreateItem ''Paper A'' ''A paper'' ''blob-1'' 100 100),
                    (alice, CreateItem ''Paper B'' ''Rent only'' ''blob-2'' 0 10)] init"

text \<open>A run in which the second account rents the item of the first.\<close>

definition rent_txs :: "(env \<times> call) list" where
  "rent_txs = [(alice, CreateItem ''Paper A'' ''A paper'' ''blob-1'' 100 100),
               (bob, RentItem 1 1000 130600)]"

text \<open>
  Four \<open>createItem\<close> calls of which the second (empty title) and the third (sent with
  ether) fail.
\<close>

definition some_creates :: "create_args list" where
  "some_creates = [(alice, ''Paper A'', ''A paper'', ''blob-1'', 100, 100),
                    (alice, '''', ''No title'', ''blob-2'', 5, 5),
                    (bob, ''Paper C'', ''Sent with ether'', ''blob-3'', 5, 5),
                    (alice, ''Paper B'', ''Rent only'', ''blob-2'', 0, 10)]"

text \<open>
  Five items of one owner, of which the third has been deactivated.
\<close>

definition five_items :: ledger where
  "five_items = run [(alice, CreateItem ''Paper 1'' ''First'' ''blob-1'' 100 10),
                     (alice, CreateItem ''Paper 2'' ''Second'' ''blob-2'' 100 10),
                     (alice, CreateItem ''Paper 3'' ''Third'' ''blob-3'' 100 10),
                     (alice, CreateItem ''Paper 4'' ''Fourth'' ''blob-4'' 100 10),
                     (alice, CreateItem ''Paper 5'' ''Fifth'' ''blob-5'' 100 10),
                     (alice, DeactivateItem 3)] init"

text \<open>A contract handle whose every call is rejected.\<close>

definition offline :: "(int, string) contract" where
  "offline = \<lparr>call_getItem = (\<lambda>_. Inl ''network error''),
     call_getRental = (\<lambda>_. Inl ''network error''),
     call_getActiveItems = (\<lambda>_ _. Inl ''network error''),
     call_getUserItems = (\<lambda>_. Inl ''network error''),
     call_getUserRentals = (\<lambda>_. Inl ''network error''),
     call_getItemRenters = (\<lambda>_. Inl ''network error''),
     call_getOwnershipHistory = (\<lambda>_. Inl ''network error''),
     call_hasActiveRental = (\<lambda>_ _. Inl ''network error''),
     call_getTotalItems = Inl ''network error'',
     call_getTotalRentals = Inl ''network error''\<rparr>"

section \<open>Properties\<close>

subsection \<open>When a call succeeds\<close>

lemma require_Inr: "(require c m k = Inr x) = (c \<and> k = Inr x)"
  by (simp add: require_def)

lemma bind_err_Inr: "(bind_err r k = Inr x) = (\<exists>v. r = Inr v \<and> k v = Inr x)"
  by (cases r) (simp_all add: bind_err_def)

lemma transfer_Inr: "(transfer e a n k = Inr x) = (accepts e a n \<and> k = Inr x)"
  by (simp add: transfer_def)

lemma nonpayable_Inr: "(nonpayable e k = Inr x) = (msg_value e = 0 \<and> k = Inr x)"
  by (simp add: nonpayable_def)

lemma nonReentrant_Inr:
  "(nonReentrant s body = Inr x) =
     (\<not> entered s \<and> (\<exists>s' r. body (s\<lparr>entered := True\<rparr>) = Inr (s', r) \<and> x = (s'\<lparr>entered := False\<rparr>, r)))"
  by (cases "body (s\<lparr>entered := True\<rparr>)") (auto simp: nonReentrant_def bind_err_def)

lemma itemExists_Inr:
  "(itemExists s i k = Inr x) = (i \<le> itemIds s \<and> IPItem.isActive (items s i) \<and> k = Inr x)"
  by (simp add: itemExists_def require_Inr)

lemma onlyItemOwner_Inr:
  "(onlyItemOwner e s i k = Inr x) = (IPItem.owner (items s i) = msg_sender e \<and> k = Inr x)"
  by (simp add: onlyItemOwner_def require_Inr)

lemma unat_uint256_add: "unat a + unat b < 2 ^ 256 \<Longrightarrow> unat (a + b) = unat a + unat b"
  for a b :: uint256
  using unat_add_lem [of a b] by simp

lemma unat_uint256_mult: "unat a * unat b < 2 ^ 256 \<Longrightarrow> unat (a * b) = unat a * unat b"
  for a b :: uint256
  using unat_mult_lem [of a b] by simp

lemma checked_add_Inr: "(checked_add a b = Inr c) = (unat a + unat b < 2 ^ 256 \<and> c = a + b)"
  by (auto simp: checked_add_def)

lemma checked_sub_Inr: "(checked_sub a b = Inr c) = (b \<le> a \<and> c = a - b)"
  by (auto simp: checked_sub_def)

lemma checked_mul_Inr: "(checked_mul a b = Inr c) = (unat a * unat b < 2 ^ 256 \<and> c = a * b)"
  by (auto simp: checked_mul_def)

lemma checked_div_Inr: "(checked_div a b = Inr c) = (b \<noteq> 0 \<and> c = a div b)"
  by (auto simp: checked_div_def)

lemma validRentalPeriod_Inr:
  "(validRentalPeriod e st en k = Inr x) =
     (block_timestamp e \<le> st \<and> st < en \<and> unat (block_timestamp e) + unat days_365 < 2 ^ 256
      \<and> en \<le> block_timestamp e + days_365 \<and> k = Inr x)"
  by (auto simp: validRentalPeriod_def require_Inr bind_err_Inr checked_add_Inr)

lemmas Inr_simps = require_Inr bind_err_Inr transfer_Inr nonpayable_Inr nonReentrant_Inr
  itemExists_Inr onlyItemOwner_Inr validRentalPeriod_Inr checked_sub_Inr checked_mul_Inr checked_div_Inr

lemma rentItem_success:
  assumes "rentItem e i start_t end_t s = Inr (s', pays)"
  shows "\<exists>c. c = ((end_t - start_t) * rentalPrice (items s i)) div one_day
     \<and> start_t < end_t \<and> unat (end_t - start_t) * unat (rentalPrice (items s i)) < 2 ^ 256
     \<and> c \<le> msg_value e
     \<and> \<not> entered s \<and> i \<le> itemIds s \<and> IPItem.isActive (items s i)
     \<and> block_timestamp e \<le> start_t
     \<and> IPItem.owner (items s i) \<noteq> msg_sender e
     \<and> rentalIds s' = rentalIds s + 1
     \<and> itemIds s' = itemIds s
     \<and> userItems s' = userItems s
     \<and> ownershipHistory s' = ownershipHistory s
     \<and> entered s' = False
     \<and> rentals s' = (rentals s)(rentalIds s + 1 := \<lparr>rentalId = rentalIds s + 1, Rental.itemId = i, renter = msg_sender e,
                       startTime = start_t, endTime = end_t, amountPaid = c,
                       Rental.isActive = True\<rparr>)
     \<and> userRentals s' = (userRentals s)(msg_sender e := userRentals s (msg_sender e) @ [rentalIds s + 1])
     \<and> items s' = (items s)(i := (items s i)\<lparr>totalRentals := totalRentals (items s i) + 1,
                                           totalRevenue := totalRevenue (items s i) + c\<rparr>)
     \<and> pays = (IPItem.owner (items s i), c) # (if msg_value e > c then [(msg_sender e, msg_value e - c)] else [])"
  using assms
  unfolding rentItem_def 
  apply (simp only: Inr_simps checked_add_Inr Let_def increment_def)
  apply (elim conjE exE)
  apply (simp split: if_splits add: transfer_Inr)
  apply auto
  done


lemma purchaseItem_success:
  assumes "purchaseItem e i s = Inr (s', pays)"
  shows "\<not> entered s \<and> i \<le> itemIds s \<and> IPItem.isActive (items s i)
     \<and> 0 < IPItem.price (items s i) \<and> IPItem.price (items s i) \<le> msg_value e
     \<and> IPItem.owner (items s i) \<noteq> msg_sender e
     \<and> s' = s\<lparr>items := (items s)(i := (items s i)\<lparr>IPItem.owner := msg_sender e\<rparr>),
              userItems := (userItems s)(msg_sender e := userItems s (msg_sender e) @ [i]),
              ownershipHistory := (ownershipHistory s)(i := ownershipHistory s i @
                 [\<lparr>OwnershipRecord.owner = msg_sender e, timestamp = block_timestamp e,
                   OwnershipRecord.price = IPItem.price (items s i)\<rparr>])\<rparr>"
  using assms
  unfolding purchaseItem_def
  apply (simp only: Inr_simps Let_def)
  apply (elim conjE exE)
  apply (simp split: if_splits add: transfer_Inr)
  done

lemma createItem_success:
  assumes "createItem e t d b p r s = Inr (s', newItemId)"
  shows "newItemId = itemIds s + 1
     \<and> s' = s\<lparr>itemIds := itemIds s + 1,
              items := (items s)(itemIds s + 1 :=
                  \<lparr>IPItem.itemId = itemIds s + 1, title = t, description = d,
                   blobId = b, IPItem.owner = msg_sender e, IPItem.price = p,
                   rentalPrice = r, IPItem.isActive = True,
                   createdAt = block_timestamp e, totalRentals = 0, totalRevenue = 0\<rparr>),
              userItems := (userItems s)(msg_sender e := userItems s (msg_sender e) @ [itemIds s + 1]),
              ownershipHistory := (ownershipHistory s)(itemIds s + 1 := ownershipHistory s (itemIds s + 1) @
                 [\<lparr>OwnershipRecord.owner = msg_sender e, timestamp = block_timestamp e,
                   OwnershipRecord.price = 0\<rparr>])\<rparr>"
  using assms
  unfolding createItem_def
  apply (simp only: Inr_simps Let_def increment_def)
  apply (elim conjE exE)
  apply auto
  done

lemma updateItemPrices_success:
  assumes "updateItemPrices e i p r s = Inr (s', u)"
  shows "IPItem.owner (items s i) = msg_sender e \<and> i \<le> itemIds s \<and> IPItem.isActive (items s i)
     \<and> s' = s\<lparr>items := (items s)(i := (items s i)\<lparr>IPItem.price := p, rentalPrice := r\<rparr>)\<rparr>"
  using assms
  unfolding updateItemPrices_def
  by (simp add: Inr_simps)

lemma deactivateItem_success:
  assumes "deactivateItem e i s = Inr (s', u)"
  shows "IPItem.owner (items s i) = msg_sender e \<and> i \<le> itemIds s \<and> IPItem.isActive (items s i)
     \<and> msg_value e = 0
     \<and> s' = s\<lparr>items := (items s)(i := (items s i)\<lparr>IPItem.isActive := False\<rparr>)\<rparr>"
  using assms
  unfolding deactivateItem_def
  by (simp add: Inr_simps)

lemma storage_after_Inl: "isl r \<Longrightarrow> storage_after s r = s"
  by (cases r) (simp_all add: storage_after_def)

lemma not_Inr_isl: "(\<And>x. r \<noteq> Inr x) \<Longrightarrow> isl r"
  by (cases r) auto

subsection \<open>The example states, evaluated\<close>

lemma one_item_eq:
  "one_item = \<lparr>itemIds = 1, rentalIds = 0,
     items = (\<lambda>_. zero_item)(1 := \<lparr>IPItem.itemId = 1, title = ''Paper A'', description = ''A paper'',
                   blobId = ''blob-1'', IPItem.owner = 10, IPItem.price = 100,
                   rentalPrice = 100, IPItem.isActive = True,
                   createdAt = 1000, totalRentals = 0, totalRevenue = 0\<rparr>),
     rentals = (\<lambda>_. zero_rental),
     ownershipHistory = (\<lambda>_. [])(1 := [\<lparr>OwnershipRecord.owner = 10, timestamp = 1000, OwnershipRecord.price = 0\<rparr>]),
     userItems = (\<lambda>_. [])(10 := [1]), userRentals = (\<lambda>_. []),
     hasRented = (\<lambda>_ _. False), itemRenters = (\<lambda>_. []), entered = False\<rparr>"
  by (simp add: one_item_def alice_def createItem_def storage_after_def init_def increment_def
      require_def nonpayable_def Let_def)

lemma bob_rents: "\<not> isl (rentItem bob 1 1000 130600 one_item)"
    by (simp add: one_item_eq bob_def rentItem_def nonReentrant_def itemExists_def
        validRentalPeriod_def require_def bind_err_def checked_add_def checked_sub_def
        checked_mul_def checked_div_def transfer_def one_day_def days_365_def increment_def
        Let_def)

lemma two_items_eq:
  "two_items = \<lparr>itemIds = 2, rentalIds = 0,
     items = (\<lambda>_. zero_item)
       (1 := \<lparr>IPItem.itemId = 1, title = ''Paper A'', description = ''A paper'',
                   blobId = ''blob-1'', IPItem.owner = 10, IPItem.price = 100,
                   rentalPrice = 100, IPItem.isActive = True,
                   createdAt = 1000, totalRentals = 0, totalRevenue = 0\<rparr>,
        2 := \<lparr>IPItem.itemId = 2, title = ''Paper B'', description = ''Rent only'',
                   blobId = ''blob-2'', IPItem.owner = 10, IPItem.price = 0,
                   rentalPrice = 10, IPItem.isActive = True,
                   createdAt = 1000, totalRentals = 0, totalRevenue = 0\<rparr>),
     rentals = (\<lambda>_. zero_rental),
     ownershipHistory = (\<lambda>_. [])
       (1 := [\<lparr>OwnershipRecord.owner = 10, timestamp = 1000, OwnershipRecord.price = 0\<rparr>],
        2 := [\<lparr>OwnershipRecord.owner = 10, timestamp = 1000, OwnershipRecord.price = 0\<rparr>]),
     userItems = (\<lambda>_. [])(10 := [1, 2]), userRentals = (\<lambda>_. []),
     hasRented = (\<lambda>_ _. False), itemRenters = (\<lambda>_. []), entered = False\<rparr>"
  by (simp add: two_items_def alice_def createItem_def storage_after_def init_def increment_def
      require_def nonpayable_def Let_def)

subsection \<open>The cost of a rental\<close>

text \<open>
  C6: after a successful \<open>rentItem\<close> the amount stored in the new rental is
  \<open>floor (durationSeconds * rentalPrice / 86400)\<close> on unbounded naturals, the owner is
  paid exactly that amount and the renter gets back whatever was sent above it; and a call
  whose payment is below that cost fails. With a rental price of 100 and a duration of
  129600 seconds the cost is 150.
\<close>

theorem rentItem_cost:
  "(rentItem e i start_t end_t s = Inr (s', pays) \<longrightarrow>
      unat (amountPaid (rentals s' (rentalIds s')))
        = spec_rental_cost (unat end_t - unat start_t) (unat (rentalPrice (items s i)))
      \<and> pays = (IPItem.owner (items s i), amountPaid (rentals s' (rentalIds s')))
           # (if amountPaid (rentals s' (rentalIds s')) < msg_value e
              then [(msg_sender e, msg_value e - amountPaid (rentals s' (rentalIds s')))] else []))
   \<and> (unat (msg_value e) < spec_rental_cost (unat end_t - unat start_t) (unat (rentalPrice (items s i)))
        \<longrightarrow> isl (rentItem e i start_t end_t s))"
proof -
  let ?cost = "spec_rental_cost (unat end_t - unat start_t) (unat (rentalPrice (items s i)))"
  have ok: "unat (amountPaid (rentals s' (rentalIds s'))) = ?cost
      \<and> amountPaid (rentals s' (rentalIds s')) \<le> msg_value e
      \<and> pays = (IPItem.owner (items s i), amountPaid (rentals s' (rentalIds s')))
           # (if amountPaid (rentals s' (rentalIds s')) < msg_value e
              then [(msg_sender e, msg_value e - amountPaid (rentals s' (rentalIds s')))] else [])"
    if r: "rentItem e i start_t end_t s = Inr (s', pays)" for s' pays
  proof -
    from rentItem_success [OF r] obtain c where
      c: "c = ((end_t - start_t) * rentalPrice (items s i)) div one_day"
      and lt: "start_t < end_t"
      and nov: "unat (end_t - start_t) * unat (rentalPrice (items s i)) < 2 ^ 256"
      and le: "c \<le> msg_value e"
      and ids: "rentalIds s' = rentalIds s + 1"
      and rs: "rentals s' = (rentals s)(rentalIds s + 1 := \<lparr>rentalId = rentalIds s + 1, Rental.itemId = i, renter = msg_sender e,
                       startTime = start_t, endTime = end_t, amountPaid = c,
                       Rental.isActive = True\<rparr>)"
      and pays: "pays = (IPItem.owner (items s i), c) # (if msg_value e > c then [(msg_sender e, msg_value e - c)] else [])"
      by blast
    have paid: "amountPaid (rentals s' (rentalIds s')) = c"
      by (simp add: ids rs)
    from lt have "unat (end_t - start_t) = unat end_t - unat start_t"
      by (simp add: unat_sub)
    moreover have "unat c = unat ((end_t - start_t) * rentalPrice (items s i)) div 86400"
      by (simp add: c one_day_def unat_div)
    moreover note unat_uint256_mult [OF nov]
    ultimately have "unat c = ?cost"
      by (simp add: spec_rental_cost_def)
    with le pays show ?thesis
      by (simp add: paid)
  qed
  have fails: "isl (rentItem e i start_t end_t s)" if low: "unat (msg_value e) < ?cost"
  proof (cases "rentItem e i start_t end_t s")
    case (Inl err)
    then show ?thesis by simp
  next
    case (Inr res)
    obtain s'' pays'' where "res = (s'', pays'')"
      by (cases res)
    with Inr ok [of s'' pays''] have "?cost \<le> unat (msg_value e)"
      by (metis word_le_nat_alt)
    with low show ?thesis by simp
  qed
  from ok fails show ?thesis
    by blast
qed

theorem rentItem_cost_witness:
  "\<exists>s' pays. rentItem bob 1 1000 130600 one_item = Inr (s', pays)
     \<and> unat (amountPaid (rentals s' (rentalIds s'))) = 150
     \<and> spec_rental_cost 129600 100 = 150
     \<and> isl (rentItem (bob\<lparr>msg_value := 149\<rparr>) 1 1000 130600 one_item)"
proof -
  note bob_rents
  then obtain s' pays where r: "rentItem bob 1 1000 130600 one_item = Inr (s', pays)"
    by (cases "rentItem bob 1 1000 130600 one_item") auto
  have c: "spec_rental_cost (unat (130600 :: uint256) - unat (1000 :: uint256))
             (unat (rentalPrice (items one_item 1))) = 150"
    by (simp add: spec_rental_cost_def one_item_eq)
  have v: "unat (msg_value (bob\<lparr>msg_value := 149\<rparr>)) < 150"
    by simp
  from rentItem_cost [of bob 1 1000 130600 one_item s' pays] r c
  have "unat (amountPaid (rentals s' (rentalIds s'))) = 150"
    by simp
  moreover from rentItem_cost [of "bob\<lparr>msg_value := 149\<rparr>" 1 1000 130600 one_item] c v
  have "isl (rentItem (bob\<lparr>msg_value := 149\<rparr>) 1 1000 130600 one_item)"
    by simp
  moreover have "spec_rental_cost 129600 100 = 150"
    by (simp add: spec_rental_cost_def)
  ultimately show ?thesis
    using r by blast
qed

subsection \<open>Purchases\<close>

text \<open>
  C4: \<open>purchaseItem\<close> fails on an item whose price is 0 and fails when the payment is
  below the price; on an existing, active item the two failures are the reverts
  ``Item is not for sale'' and ``Insufficient payment''. A failed call leaves the storage as
  it was, so the owner of the item, its ownership history and the item index of the caller
  are unchanged.
\<close>

theorem purchaseItem_failure:
  "(IPItem.price (items s i) = 0 \<or> msg_value e < IPItem.price (items s i)
      \<longrightarrow> isl (purchaseItem e i s))
   \<and> (\<not> entered s \<and> i \<le> itemIds s \<and> IPItem.isActive (items s i) \<longrightarrow>
        (IPItem.price (items s i) = 0 \<longrightarrow>
           purchaseItem e i s = Inl (Revert ''Item is not for sale''))
        \<and> (0 < IPItem.price (items s i) \<and> msg_value e < IPItem.price (items s i) \<longrightarrow>
           purchaseItem e i s = Inl (Revert ''Insufficient payment'')))
   \<and> (isl (purchaseItem e i s) \<longrightarrow>
        storage_after s (purchaseItem e i s) = s
        \<and> IPItem.owner (items (storage_after s (purchaseItem e i s)) i) = IPItem.owner (items s i)
        \<and> ownershipHistory (storage_after s (purchaseItem e i s)) i = ownershipHistory s i
        \<and> userItems (storage_after s (purchaseItem e i s)) (msg_sender e)
            = userItems s (msg_sender e))"
proof (intro conjI impI)
  assume low: "IPItem.price (items s i) = 0 \<or> msg_value e < IPItem.price (items s i)"
  show "isl (purchaseItem e i s)"
  proof (rule not_Inr_isl)
    fix x
    show "purchaseItem e i s \<noteq> Inr x"
    proof
      assume "purchaseItem e i s = Inr x"
      then have "purchaseItem e i s = Inr (fst x, snd x)"
        by simp
      from purchaseItem_success [OF this] low show False
        by auto
    qed
  qed
next
  assume "\<not> entered s \<and> i \<le> itemIds s \<and> IPItem.isActive (items s i)"
    and "IPItem.price (items s i) = 0"
  then show "purchaseItem e i s = Inl (Revert ''Item is not for sale'')"
    by (simp add: purchaseItem_def nonReentrant_def itemExists_def require_def bind_err_def)
next
  assume "\<not> entered s \<and> i \<le> itemIds s \<and> IPItem.isActive (items s i)"
    and "0 < IPItem.price (items s i) \<and> msg_value e < IPItem.price (items s i)"
  then have "\<not> entered s" "i \<le> itemIds s" "IPItem.isActive (items s i)"
    "0 < IPItem.price (items s i)" "\<not> IPItem.price (items s i) \<le> msg_value e"
    by (simp_all add: not_le)
  then show "purchaseItem e i s = Inl (Revert ''Insufficient payment'')"
    by (simp add: purchaseItem_def nonReentrant_def itemExists_def require_def bind_err_def
        Let_def)
next
  assume f: "isl (purchaseItem e i s)"
  then show "storage_after s (purchaseItem e i s) = s"
    by (rule storage_after_Inl)
  then show "IPItem.owner (items (storage_after s (purchaseItem e i s)) i)
      = IPItem.owner (items s i)"
    and "ownershipHistory (storage_after s (purchaseItem e i s)) i = ownershipHistory s i"
    and "userItems (storage_after s (purchaseItem e i s)) (msg_sender e)
      = userItems s (msg_sender e)"
    by simp_all
qed

theorem purchaseItem_failure_witness:
  "purchaseItem bob 2 two_items = Inl (Revert ''Item is not for sale'')
   \<and> purchaseItem (bob\<lparr>msg_value := 99\<rparr>) 1 two_items = Inl (Revert ''Insufficient payment'')
   \<and> storage_after two_items (purchaseItem bob 2 two_items) = two_items
   \<and> storage_after two_items (purchaseItem (bob\<lparr>msg_value := 99\<rparr>) 1 two_items) = two_items"
proof -
  have a: "\<not> entered two_items \<and> 2 \<le> itemIds two_items \<and> IPItem.isActive (items two_items 2)"
    and b: "IPItem.price (items two_items 2) = 0"
    and c: "\<not> entered two_items \<and> 1 \<le> itemIds two_items \<and> IPItem.isActive (items two_items 1)"
    and d: "0 < IPItem.price (items two_items 1)
            \<and> msg_value (bob\<lparr>msg_value := 99\<rparr>) < IPItem.price (items two_items 1)"
    by (simp_all add: two_items_eq)
  from purchaseItem_failure [of two_items 2 bob] a b
  have "purchaseItem bob 2 two_items = Inl (Revert ''Item is not for sale'')
      \<and> storage_after two_items (purchaseItem bob 2 two_items) = two_items"
    by (simp add: storage_after_def)
  moreover from purchaseItem_failure [of two_items 1 "bob\<lparr>msg_value := 99\<rparr>"] c d
  have "purchaseItem (bob\<lparr>msg_value := 99\<rparr>) 1 two_items = Inl (Revert ''Insufficient payment'')
      \<and> storage_after two_items (purchaseItem (bob\<lparr>msg_value := 99\<rparr>) 1 two_items) = two_items"
    by (simp add: storage_after_def)
  ultimately show ?thesis
    by blast
qed

text \<open>
  C5: after a successful \<open>purchaseItem\<close> by caller \<open>C\<close> the ownership history of the
  item is the old one with one entry appended, so its length grows by exactly one; the
  appended entry carries the price of the item at the time of the purchase and owner
  \<open>C\<close>; and the stored owner of the item is \<open>C\<close>.
\<close>

theorem purchaseItem_history:
  assumes "purchaseItem e i s = Inr (s', pays)"
  shows "\<exists>h. getOwnershipHistory s i = Inr h
     \<and> getOwnershipHistory s' i = Inr (h @ [\<lparr>OwnershipRecord.owner = msg_sender e,
            timestamp = block_timestamp e, OwnershipRecord.price = IPItem.price (items s i)\<rparr>])
     \<and> length (projr (getOwnershipHistory s' i)) = length h + 1
     \<and> OwnershipRecord.price (last (projr (getOwnershipHistory s' i))) = IPItem.price (items s i)
     \<and> OwnershipRecord.owner (last (projr (getOwnershipHistory s' i))) = msg_sender e
     \<and> IPItem.price (items s' i) = IPItem.price (items s i)
     \<and> IPItem.owner (items s' i) = msg_sender e
     \<and> getItem s' i = Inr ((items s i)\<lparr>IPItem.owner := msg_sender e\<rparr>)"
proof -
  note ok = purchaseItem_success [OF assms]
  from ok have le: "i \<le> itemIds s"
    by simp
  from ok have s': "s' = s\<lparr>items := (items s)(i := (items s i)\<lparr>IPItem.owner := msg_sender e\<rparr>),
              userItems := (userItems s)(msg_sender e := userItems s (msg_sender e) @ [i]),
              ownershipHistory := (ownershipHistory s)(i := ownershipHistory s i @
                 [\<lparr>OwnershipRecord.owner = msg_sender e, timestamp = block_timestamp e,
                   OwnershipRecord.price = IPItem.price (items s i)\<rparr>])\<rparr>"
    by simp
  have "getOwnershipHistory s i = Inr (ownershipHistory s i)"
    using le by (simp add: getOwnershipHistory_def require_def)
  moreover have "getOwnershipHistory s' i = Inr (ownershipHistory s i @
      [\<lparr>OwnershipRecord.owner = msg_sender e, timestamp = block_timestamp e,
        OwnershipRecord.price = IPItem.price (items s i)\<rparr>])"
    using le by (simp add: getOwnershipHistory_def require_def s')
  moreover have "getItem s' i = Inr ((items s i)\<lparr>IPItem.owner := msg_sender e\<rparr>)"
    using le by (simp add: getItem_def require_def s')
  moreover have "items s' i = (items s i)\<lparr>IPItem.owner := msg_sender e\<rparr>"
    by (simp add: s')
  ultimately show ?thesis
    by simp
qed

theorem purchaseItem_history_witness:
  "\<exists>s' pays. purchaseItem bob 1 one_item = Inr (s', pays)
     \<and> getOwnershipHistory one_item 1
         = Inr [\<lparr>OwnershipRecord.owner = 10, timestamp = 1000, OwnershipRecord.price = 0\<rparr>]
     \<and> getOwnershipHistory s' 1
         = Inr [\<lparr>OwnershipRecord.owner = 10, timestamp = 1000, OwnershipRecord.price = 0\<rparr>,
                \<lparr>OwnershipRecord.owner = 11, timestamp = 1000, OwnershipRecord.price = 100\<rparr>]
     \<and> IPItem.owner (items s' 1) = 11"
proof -
  have "\<not> isl (purchaseItem bob 1 one_item)"
    by (simp add: one_item_eq bob_def purchaseItem_def nonReentrant_def itemExists_def
        require_def bind_err_def transfer_def Let_def)
  then obtain s' pays where r: "purchaseItem bob 1 one_item = Inr (s', pays)"
    by (cases "purchaseItem bob 1 one_item") auto
  have h: "getOwnershipHistory one_item 1
      = Inr [\<lparr>OwnershipRecord.owner = 10, timestamp = 1000, OwnershipRecord.price = 0\<rparr>]"
    by (simp add: one_item_eq getOwnershipHistory_def require_def)
  have v: "msg_sender bob = 11" "block_timestamp bob = 1000" "IPItem.price (items one_item 1) = 100"
    by (simp_all add: bob_def one_item_eq)
  from purchaseItem_history [OF r] h v
  have "getOwnershipHistory s' 1
         = Inr [\<lparr>OwnershipRecord.owner = 10, timestamp = 1000, OwnershipRecord.price = 0\<rparr>,
                \<lparr>OwnershipRecord.owner = 11, timestamp = 1000, OwnershipRecord.price = 100\<rparr>]
     \<and> IPItem.owner (items s' 1) = 11"
    by auto
  with r h show ?thesis
    by blast
qed

subsection \<open>Deactivating twice\<close>

text \<open>
  The owner of the example item deactivates it: the first call succeeds, the second one
  reverts with ``Item is not active'', an error the first call did not raise.
\<close>

theorem deactivateItem_twice_counterexample:
  "\<not> isl (deactivateItem alice 1 one_item)
   \<and> deactivateItem alice 1 (storage_after one_item (deactivateItem alice 1 one_item))
       = Inl (Revert ''Item is not active'')"
  by (simp add: one_item_eq alice_def deactivateItem_def nonpayable_def onlyItemOwner_def
      itemExists_def require_def storage_after_def)

text \<open>
  C1, as the code has it: directly after a successful \<open>deactivateItem\<close>, with no other
  call in between, the item is inactive, and a second \<open>deactivateItem\<close> on it by any
  caller fails and leaves the storage, and so the inactive flag, as it is. Sent without
  ether, the second call of the owner reverts with ``Item is not active'', since the
  modifier \<open>itemExists\<close> requires an active item, and the call of any other account
  reverts with ``Not the item owner''.
\<close>

theorem deactivateItem_twice:
  assumes "deactivateItem e i s = Inr (s', u)"
  shows "\<not> IPItem.isActive (items s' i)
     \<and> isl (deactivateItem e2 i s')
     \<and> (msg_value e2 = 0 \<and> msg_sender e2 = msg_sender e \<longrightarrow>
          deactivateItem e2 i s' = Inl (Revert ''Item is not active''))
     \<and> (msg_value e2 = 0 \<and> msg_sender e2 \<noteq> msg_sender e \<longrightarrow>
          deactivateItem e2 i s' = Inl (Revert ''Not the item owner''))
     \<and> storage_after s' (deactivateItem e2 i s') = s'
     \<and> \<not> IPItem.isActive (items (storage_after s' (deactivateItem e2 i s')) i)"
proof -
  note ok = deactivateItem_success [OF assms]
  from ok have own: "IPItem.owner (items s i) = msg_sender e" and le: "i \<le> itemIds s"
    and s': "s' = s\<lparr>items := (items s)(i := (items s i)\<lparr>IPItem.isActive := False\<rparr>)\<rparr>"
    by simp_all
  have off: "\<not> IPItem.isActive (items s' i)"
    by (simp add: s')
  have own': "IPItem.owner (items s' i) = msg_sender e"
    by (simp add: s' own)
  have fails: "isl (deactivateItem e2 i s')"
    using off by (simp add: deactivateItem_def nonpayable_def onlyItemOwner_def itemExists_def
        require_def)
  have a: "deactivateItem e2 i s' = Inl (Revert ''Item is not active'')"
    if "msg_value e2 = 0 \<and> msg_sender e2 = msg_sender e"
    using that off own' le
    by (simp add: deactivateItem_def nonpayable_def onlyItemOwner_def itemExists_def
        require_def s')
  have b: "deactivateItem e2 i s' = Inl (Revert ''Not the item owner'')"
    if "msg_value e2 = 0 \<and> msg_sender e2 \<noteq> msg_sender e"
    using that own'
    by (auto simp add: deactivateItem_def nonpayable_def onlyItemOwner_def require_def)
  have same: "storage_after s' (deactivateItem e2 i s') = s'"
    using fails by (rule storage_after_Inl)
  from off fails a b same show ?thesis
    by simp
qed

theorem deactivateItem_twice_witness:
  "\<exists>s' u. deactivateItem alice 1 one_item = Inr (s', u)
     \<and> \<not> IPItem.isActive (items s' 1)
     \<and> deactivateItem alice 1 s' = Inl (Revert ''Item is not active'')
     \<and> deactivateItem (bob\<lparr>msg_value := 0\<rparr>) 1 s' = Inl (Revert ''Not the item owner'')"
proof -
  have "\<not> isl (deactivateItem alice 1 one_item)"
    by (simp add: one_item_eq alice_def deactivateItem_def nonpayable_def onlyItemOwner_def
      itemExists_def require_def)
  then obtain s' u where r: "deactivateItem alice 1 one_item = Inr (s', u)"
    by (cases "deactivateItem alice 1 one_item") auto
  have v: "msg_value alice = 0 \<and> msg_sender alice = msg_sender alice"
    "msg_value (bob\<lparr>msg_value := 0\<rparr>) = 0 \<and> msg_sender (bob\<lparr>msg_value := 0\<rparr>) \<noteq> msg_sender alice"
    by (simp_all add: alice_def bob_def)
  from deactivateItem_twice [OF r, of alice] v(1)
  have "\<not> IPItem.isActive (items s' 1)
     \<and> deactivateItem alice 1 s' = Inl (Revert ''Item is not active'')"
    by simp
  moreover from deactivateItem_twice [OF r, of "bob\<lparr>msg_value := 0\<rparr>"] v(2)
  have "deactivateItem (bob\<lparr>msg_value := 0\<rparr>) 1 s' = Inl (Revert ''Not the item owner'')"
    by simp
  ultimately show ?thesis
    using r by blast
qed

subsection \<open>The read accessors of the client\<close>

text \<open>
  With a contract handle whose every call is rejected, the accessors \<open>getItem\<close>,
  \<open>getRental\<close>, \<open>getOwnershipHistory\<close> and \<open>getItemRenters\<close> reject with the same
  error: they have no \<^verbatim>\<open>try\<close> around the call.
\<close>

theorem ContractService_getItem_counterexample:
  "ContractService_getItem \<lparr>Number = (\<lambda>n. n), toString = (\<lambda>n. [])\<rparr> offline 1
     = Inl ''network error''
   \<and> ContractService_getRental \<lparr>Number = (\<lambda>n. n), toString = (\<lambda>n. [])\<rparr> offline 1
     = Inl ''network error''
   \<and> ContractService_getOwnershipHistory \<lparr>Number = (\<lambda>n. n), toString = (\<lambda>n. [])\<rparr> offline 1
     = Inl ''network error''
   \<and> ContractService_getItemRenters offline 1 = Inl ''network error''"
  by (simp add: offline_def ContractService_getItem_def ContractService_getRental_def
      ContractService_getOwnershipHistory_def ContractService_getItemRenters_def)

text \<open>
  C2, as the code has it: \<open>getActiveItems\<close>, \<open>getUserItems\<close> and \<open>getUserRentals\<close>
  resolve to the empty list, \<open>hasActiveRental\<close> to false and \<open>getTotalItems\<close> and
  \<open>getTotalRentals\<close> to 0 when the call fails, and never reject; \<open>getItem\<close>,
  \<open>getRental\<close>, \<open>getOwnershipHistory\<close> and \<open>getItemRenters\<close> pass the failure of
  the call on to their caller.
\<close>

theorem ContractService_degrade:
  "(isl (call_getActiveItems c offset limit) \<longrightarrow>
       ContractService_getActiveItems j c offset limit = Inr [])
   \<and> (isl (call_getUserItems c userAddress) \<longrightarrow>
       ContractService_getUserItems j c userAddress = Inr [])
   \<and> (isl (call_getUserRentals c userAddress) \<longrightarrow>
       ContractService_getUserRentals j c userAddress = Inr [])
   \<and> (isl (call_hasActiveRental c itemId' userAddress) \<longrightarrow>
       ContractService_hasActiveRental c itemId' userAddress = Inr False)
   \<and> (isl (call_getTotalItems c) \<longrightarrow> ContractService_getTotalItems j c = Inr (Number j 0))
   \<and> (isl (call_getTotalRentals c) \<longrightarrow> ContractService_getTotalRentals j c = Inr (Number j 0))
   \<and> \<not> isl (ContractService_getActiveItems j c offset limit)
   \<and> \<not> isl (ContractService_getUserItems j c userAddress)
   \<and> \<not> isl (ContractService_getUserRentals j c userAddress)
   \<and> \<not> isl (ContractService_hasActiveRental c itemId' userAddress)
   \<and> \<not> isl (ContractService_getTotalItems j c)
   \<and> \<not> isl (ContractService_getTotalRentals j c)
   \<and> (\<forall>err. call_getItem c itemId' = Inl err \<longrightarrow> ContractService_getItem j c itemId' = Inl err)
   \<and> (\<forall>err. call_getRental c rentalId' = Inl err \<longrightarrow>
         ContractService_getRental j c rentalId' = Inl err)
   \<and> (\<forall>err. call_getOwnershipHistory c itemId' = Inl err \<longrightarrow>
         ContractService_getOwnershipHistory j c itemId' = Inl err)
   \<and> (\<forall>err. call_getItemRenters c itemId' = Inl err \<longrightarrow>
         ContractService_getItemRenters c itemId' = Inl err)"
  by (simp add: ContractService_getActiveItems_def ContractService_getUserItems_def
      ContractService_getUserRentals_def ContractService_hasActiveRental_def
      ContractService_getTotalItems_def ContractService_getTotalRentals_def
      ContractService_getItem_def ContractService_getRental_def
      ContractService_getOwnershipHistory_def ContractService_getItemRenters_def
      split: sum.splits)

theorem ContractService_degrade_witness:
  "ContractService_getActiveItems \<lparr>Number = (\<lambda>n. n), toString = (\<lambda>n. [])\<rparr> offline 0 20 = Inr []
   \<and> ContractService_getUserItems \<lparr>Number = (\<lambda>n. n), toString = (\<lambda>n. [])\<rparr> offline ''0xA'' = Inr []
   \<and> ContractService_getUserRentals \<lparr>Number = (\<lambda>n. n), toString = (\<lambda>n. [])\<rparr> offline ''0xA'' = Inr []
   \<and> ContractService_hasActiveRental offline 1 ''0xA'' = Inr False
   \<and> ContractService_getTotalItems \<lparr>Number = (\<lambda>n. n), toString = (\<lambda>n. [])\<rparr> offline = Inr 0
   \<and> ContractService_getTotalRentals \<lparr>Number = (\<lambda>n. n), toString = (\<lambda>n. [])\<rparr> offline = Inr 0
   \<and> ContractService_getItem \<lparr>Number = (\<lambda>n. n), toString = (\<lambda>n. [])\<rparr> offline 1 = Inl ''network error''"
proof -
  have f: "isl (call_getActiveItems offline 0 20)" "isl (call_getUserItems offline ''0xA'')"
    "isl (call_getUserRentals offline ''0xA'')" "isl (call_hasActiveRental offline 1 ''0xA'')"
    "isl (call_getTotalItems offline)" "isl (call_getTotalRentals offline)"
    "call_getItem offline 1 = Inl ''network error''"
    by (simp_all add: offline_def)
  from ContractService_degrade [of offline 0 20 "\<lparr>Number = (\<lambda>n. n), toString = (\<lambda>n. [])\<rparr>"
      "''0xA''" 1 1] f
  show ?thesis
    by simp
qed

subsection \<open>Runs of calls\<close>

lemma exec_cases [consumes 0, case_names failed create purchase rent update deactivate]:
  obtains
    "exec e c s = s"
  | t d b p r s' newItemId where "c = CreateItem t d b p r"
      "createItem e t d b p r s = Inr (s', newItemId)" "exec e c s = s'"
  | i s' pays where "c = PurchaseItem i" "purchaseItem e i s = Inr (s', pays)" "exec e c s = s'"
  | i start_t end_t s' pays where "c = RentItem i start_t end_t"
      "rentItem e i start_t end_t s = Inr (s', pays)" "exec e c s = s'"
  | i p r s' u where "c = UpdateItemPrices i p r"
      "updateItemPrices e i p r s = Inr (s', u)" "exec e c s = s'"
  | i s' u where "c = DeactivateItem i" "deactivateItem e i s = Inr (s', u)" "exec e c s = s'"
proof (cases c)
  case (CreateItem t d b p r)
  then show ?thesis
    using that(1,2) by (cases "createItem e t d b p r s") (auto simp: storage_after_def)
next
  case (PurchaseItem i)
  then show ?thesis
    using that(1,3) by (cases "purchaseItem e i s") (auto simp: storage_after_def)
next
  case (RentItem i start_t end_t)
  then show ?thesis
    using that(1,4) by (cases "rentItem e i start_t end_t s") (auto simp: storage_after_def)
next
  case (UpdateItemPrices i p r)
  then show ?thesis
    using that(1,5) by (cases "updateItemPrices e i p r s") (auto simp: storage_after_def)
next
  case (DeactivateItem i)
  then show ?thesis
    using that(1,6) by (cases "deactivateItem e i s") (auto simp: storage_after_def)
qed

lemma unat_succ: "x \<noteq> - 1 \<Longrightarrow> unat (x + 1) = Suc (unat x)"
  for x :: "'a::len word"
proof -
  assume "x \<noteq> - 1"
  then have "1 + x \<noteq> 0"
    using max_word_wrap [of x] by (auto simp: add.commute)
  then have "unat (1 + x) = Suc (unat x)"
    by (rule unatSuc)
  then show ?thesis
    by (simp add: add.commute)
qed

lemma succ_fresh:
  fixes x :: "'a::len word"
  assumes "x \<noteq> - 1"
  shows "x + 1 \<noteq> 0" and "x < x + 1" and "r \<le> x \<Longrightarrow> r \<noteq> x + 1" and "r \<le> x \<Longrightarrow> r \<le> x + 1"
    and "r \<le> x + 1 \<Longrightarrow> r \<noteq> x + 1 \<Longrightarrow> r \<le> x"
proof -
  note u = unat_succ [OF assms]
  show "x + 1 \<noteq> 0"
    using u by (metis Zero_not_Suc unat_0)
  show "x < x + 1"
    using u by (simp add: word_less_nat_alt)
  show "r \<le> x \<Longrightarrow> r \<noteq> x + 1"
    using u by (auto simp: word_le_nat_alt)
  show "r \<le> x \<Longrightarrow> r \<le> x + 1"
    using u by (simp add: word_le_nat_alt)
  show "r \<le> x + 1 \<Longrightarrow> r \<noteq> x + 1 \<Longrightarrow> r \<le> x"
    using u by (simp add: word_le_nat_alt word_unat_eq_iff)
qed

lemma wf_ledger_init: "wf_ledger init"
  by (simp add: wf_ledger_def init_def)

lemma zero_item_inactive: "\<not> IPItem.isActive zero_item"
  by (simp add: zero_item_def)

lemma wf_ledger_exec:
  assumes wf: "wf_ledger s" and ni: "itemIds s \<noteq> - 1" and nr: "rentalIds s \<noteq> - 1"
  shows "wf_ledger (exec e c s)"
proof (cases rule: exec_cases [of e c s])
  case failed
  with wf show ?thesis by simp
next
  case (create t d b p r s' newItemId)
  from createItem_success [OF create(2)] succ_fresh(1) [OF ni] wf
  show ?thesis
    unfolding create(3) wf_ledger_def by simp
next
  case (purchase i s' pays)
  note ok = purchaseItem_success [OF purchase(2)]
  from ok wf zero_item_inactive have "i \<noteq> 0"
    unfolding wf_ledger_def by auto
  with ok wf show ?thesis
    unfolding purchase(3) wf_ledger_def by simp
next
  case (rent i start_t end_t s' pays)
  from rentItem_success [OF rent(2)] obtain c where
    act: "IPItem.isActive (items s i)"
    and ids: "rentalIds s' = rentalIds s + 1"
    and ent: "entered s' = False"
    and rs: "rentals s' = (rentals s)(rentalIds s + 1 := \<lparr>rentalId = rentalIds s + 1, Rental.itemId = i, renter = msg_sender e,
                       startTime = start_t, endTime = end_t, amountPaid = c,
                       Rental.isActive = True\<rparr>)"
    and ur: "userRentals s' = (userRentals s)(msg_sender e := userRentals s (msg_sender e) @ [rentalIds s + 1])"
    and it: "items s' = (items s)(i := (items s i)\<lparr>totalRentals := totalRentals (items s i) + 1,
                                           totalRevenue := totalRevenue (items s i) + c\<rparr>)"
    by blast
  from act wf zero_item_inactive have i0: "i \<noteq> 0"
    unfolding wf_ledger_def by auto
  note fr = succ_fresh [OF nr]
  have a: "\<not> entered s'" "items s' 0 = zero_item" "rentals s' 0 = zero_rental"
    using wf i0 fr(1) unfolding wf_ledger_def by (simp_all add: ent rs it)
  have b: "r \<noteq> 0 \<and> r \<le> rentalIds s' \<and> renter (rentals s' r) = u \<and> Rental.isActive (rentals s' r)"
    if "r \<in> set (userRentals s' u)" for u r
  proof (cases "r = rentalIds s + 1")
    case True
    with that wf fr(3) [of r] have "u = msg_sender e"
      unfolding wf_ledger_def by (auto simp: ur split: if_splits)
    with True fr(1) show ?thesis
      by (simp add: ids rs)
  next
    case False
    with that have "r \<in> set (userRentals s u)"
      by (auto simp: ur split: if_splits)
    with wf have "r \<noteq> 0 \<and> r \<le> rentalIds s \<and> renter (rentals s r) = u \<and> Rental.isActive (rentals s r)"
      unfolding wf_ledger_def by blast
    with False fr(4) [of r] show ?thesis
      by (simp add: ids rs)
  qed
  have c: "r \<in> set (userRentals s' (renter (rentals s' r)))"
    if "r \<noteq> 0 \<and> r \<le> rentalIds s'" for r
  proof (cases "r = rentalIds s + 1")
    case True
    then show ?thesis
      by (simp add: rs ur)
  next
    case False
    with that fr(5) [of r] have "r \<noteq> 0 \<and> r \<le> rentalIds s"
      by (simp add: ids)
    with wf have "r \<in> set (userRentals s (renter (rentals s r)))"
      unfolding wf_ledger_def by blast
    with False show ?thesis
      by (auto simp: rs ur)
  qed
  from a b c show ?thesis
    unfolding rent(3) wf_ledger_def by blast
next
  case (update i p r s' u)
  note ok = updateItemPrices_success [OF update(2)]
  from ok wf zero_item_inactive have "i \<noteq> 0"
    unfolding wf_ledger_def by auto
  with ok wf show ?thesis
    unfolding update(3) wf_ledger_def by simp
next
  case (deactivate i s' u)
  note ok = deactivateItem_success [OF deactivate(2)]
  from ok wf zero_item_inactive have "i \<noteq> 0"
    unfolding wf_ledger_def by auto
  with ok wf show ?thesis
    unfolding deactivate(3) wf_ledger_def by simp
qed

lemma exec_counters:
  "unat (itemIds (exec e c s)) \<le> Suc (unat (itemIds s))
   \<and> unat (rentalIds (exec e c s)) \<le> Suc (unat (rentalIds s))"
proof (cases rule: exec_cases [of e c s])
  case failed
  then show ?thesis by simp
next
  case (create t d b p r s' newItemId)
  have "unat (itemIds s + 1) \<le> Suc (unat (itemIds s))"
    by (cases "itemIds s = - 1") (simp_all add: unat_succ)
  with createItem_success [OF create(2)] show ?thesis
    unfolding create(3) by simp
next
  case (purchase i s' pays)
  with purchaseItem_success [OF purchase(2)] show ?thesis
    by simp
next
  case (rent i start_t end_t s' pays)
  have "unat (rentalIds s + 1) \<le> Suc (unat (rentalIds s))"
    by (cases "rentalIds s = - 1") (simp_all add: unat_succ)
  moreover from rentItem_success [OF rent(2)]
  have "rentalIds s' = rentalIds s + 1" "itemIds s' = itemIds s"
    by blast+
  ultimately show ?thesis
    unfolding rent(3) by simp
next
  case (update i p r s' u)
  with updateItemPrices_success [OF update(2)] show ?thesis
    by simp
next
  case (deactivate i s' u)
  with deactivateItem_success [OF deactivate(2)] show ?thesis
    by simp
qed

lemma not_max_uint256: "unat x + 1 < 2 ^ 256 \<Longrightarrow> x \<noteq> - 1"
  for x :: uint256
  by (auto simp: unsigned_minus_1_eq_mask mask_eq_exp_minus_1)

lemma wf_ledger_run_from:
  assumes "wf_ledger s" and "unat (itemIds s) + length txs < 2 ^ 256"
    and "unat (rentalIds s) + length txs < 2 ^ 256"
  shows "wf_ledger (run txs s)"
  using assms
proof (induction txs arbitrary: s)
  case Nil
  then show ?case by simp
next
  case (Cons tx txs)
  obtain e c where tx: "tx = (e, c)"
    by (cases tx)
  from Cons.prems have "itemIds s \<noteq> - 1" "rentalIds s \<noteq> - 1"
    by (auto intro!: not_max_uint256)
  with Cons.prems(1) have "wf_ledger (exec e c s)"
    by (rule wf_ledger_exec)
  moreover from exec_counters [of e c s] Cons.prems(2,3)
  have "unat (itemIds (exec e c s)) + length txs < 2 ^ 256"
    "unat (rentalIds (exec e c s)) + length txs < 2 ^ 256"
    by simp_all
  ultimately show ?case
    using Cons.IH [of "exec e c s"] by (simp add: tx)
qed

lemma wf_ledger_run: "length txs < 2 ^ 256 \<Longrightarrow> wf_ledger (run txs init)"
  using wf_ledger_run_from [OF wf_ledger_init, of txs] by (simp add: init_def)


lemma hasActiveRental_loop_iff:
  "hasActiveRental_loop s now i rs \<longleftrightarrow>
     (\<exists>r \<in> set rs. Rental.itemId (rentals s r) = i \<and> Rental.isActive (rentals s r)
        \<and> startTime (rentals s r) \<le> now \<and> now \<le> endTime (rentals s r))"
  by (induction rs) (auto simp: Let_def)

lemma hasActiveRental_stored:
  assumes "wf_ledger s"
  shows "hasActiveRental s now i u \<longleftrightarrow>
     (\<exists>(u', i', st, en) \<in> stored_rentals s. u' = u \<and> i' = i \<and> st \<le> now \<and> now \<le> en)"
proof
  assume "hasActiveRental s now i u"
  then obtain r where r: "r \<in> set (userRentals s u)" "Rental.itemId (rentals s r) = i"
    "startTime (rentals s r) \<le> now" "now \<le> endTime (rentals s r)"
    by (auto simp: hasActiveRental_def hasActiveRental_loop_iff)
  with assms have "r \<noteq> 0 \<and> r \<le> rentalIds s \<and> renter (rentals s r) = u"
    unfolding wf_ledger_def by blast
  with r have "(u, i, startTime (rentals s r), endTime (rentals s r)) \<in> stored_rentals s"
    unfolding stored_rentals_def by blast
  with r show "\<exists>(u', i', st, en) \<in> stored_rentals s. u' = u \<and> i' = i \<and> st \<le> now \<and> now \<le> en"
    by blast
next
  assume "\<exists>(u', i', st, en) \<in> stored_rentals s. u' = u \<and> i' = i \<and> st \<le> now \<and> now \<le> en"
  then obtain r where r: "r \<noteq> 0 \<and> r \<le> rentalIds s" "renter (rentals s r) = u"
    "Rental.itemId (rentals s r) = i" "startTime (rentals s r) \<le> now"
    "now \<le> endTime (rentals s r)"
    unfolding stored_rentals_def by auto
  with assms have "r \<in> set (userRentals s u)"
    unfolding wf_ledger_def by blast
  moreover with assms have "Rental.isActive (rentals s r)"
    unfolding wf_ledger_def by blast
  ultimately show "hasActiveRental s now i u"
    using r by (auto simp: hasActiveRental_def hasActiveRental_loop_iff)
qed

lemma stored_rentals_exec:
  assumes nr: "rentalIds s \<noteq> - 1"
  shows "stored_rentals (exec e c s) = stored_rentals s \<union> set (made_by e c s)"
proof (cases rule: exec_cases [of e c s])
  case failed
  have "made_by e c s = [] \<or> (\<exists>i st en. c = RentItem i st en \<and> \<not> isl (rentItem e i st en s))"
    by (cases c) auto
  then show ?thesis
  proof
    assume "made_by e c s = []"
    with failed show ?thesis by simp
  next
    assume "\<exists>i st en. c = RentItem i st en \<and> \<not> isl (rentItem e i st en s)"
    then obtain i st en s' pays where c: "c = RentItem i st en"
      and r: "rentItem e i st en s = Inr (s', pays)"
      by (metis sum.collapse(2) surj_pair)
    from rentItem_success [OF r] have "rentalIds s' = rentalIds s + 1"
      by blast
    moreover from c r failed have "s' = s"
      by (simp add: storage_after_def)
    ultimately have "rentalIds s = rentalIds s + 1"
      by simp
    then show ?thesis
      by simp
  qed
next
  case (create t d b p r s' newItemId)
  with createItem_success [OF create(2)] show ?thesis
    by (simp add: stored_rentals_def)
next
  case (purchase i s' pays)
  with purchaseItem_success [OF purchase(2)] show ?thesis
    by (simp add: stored_rentals_def)
next
  case (rent i start_t end_t s' pays)
  from rentItem_success [OF rent(2)] obtain cost where
    ids: "rentalIds s' = rentalIds s + 1"
    and rs: "rentals s' = (rentals s)(rentalIds s + 1 := \<lparr>rentalId = rentalIds s + 1, Rental.itemId = i, renter = msg_sender e,
                       startTime = start_t, endTime = end_t, amountPaid = cost,
                       Rental.isActive = True\<rparr>)"
    by blast
  note fr = succ_fresh [OF nr]
  have m: "made_by e c s = [(msg_sender e, i, start_t, end_t)]"
    using rent(1,2) by simp
  have "stored_rentals s' = insert (msg_sender e, i, start_t, end_t) (stored_rentals s)"
  proof (intro set_eqI iffI)
    fix x
    assume "x \<in> stored_rentals s'"
    then obtain r where r: "r \<noteq> 0" "r \<le> rentalIds s + 1"
      and x: "x = (renter (rentals s' r), Rental.itemId (rentals s' r), startTime (rentals s' r),
          endTime (rentals s' r))"
      unfolding stored_rentals_def ids by blast
    show "x \<in> insert (msg_sender e, i, start_t, end_t) (stored_rentals s)"
    proof (cases "r = rentalIds s + 1")
      case True
      with x show ?thesis
        by (simp add: rs)
    next
      case False
      with r fr(5) [of r] have "r \<le> rentalIds s"
        by simp
      with False r(1) x show ?thesis
        unfolding stored_rentals_def by (auto simp: rs)
    qed
  next
    fix x
    assume "x \<in> insert (msg_sender e, i, start_t, end_t) (stored_rentals s)"
    then consider "x = (msg_sender e, i, start_t, end_t)" | "x \<in> stored_rentals s"
      by blast
    then show "x \<in> stored_rentals s'"
    proof cases
      case 1
      have "rentalIds s + 1 \<noteq> 0 \<and> rentalIds s + 1 \<le> rentalIds s'"
        using fr(1) by (simp add: ids)
      moreover have "x = (renter (rentals s' (rentalIds s + 1)),
          Rental.itemId (rentals s' (rentalIds s + 1)), startTime (rentals s' (rentalIds s + 1)),
          endTime (rentals s' (rentalIds s + 1)))"
        by (simp add: 1 rs)
      ultimately show ?thesis
        unfolding stored_rentals_def by blast
    next
      case 2
      then obtain r where r: "r \<noteq> 0" "r \<le> rentalIds s"
        and x: "x = (renter (rentals s r), Rental.itemId (rentals s r), startTime (rentals s r),
          endTime (rentals s r))"
        unfolding stored_rentals_def by blast
      from r fr(3) [of r] fr(4) [of r] have "r \<noteq> rentalIds s + 1" "r \<le> rentalIds s'"
        by (simp_all add: ids)
      with r(1) x have "r \<noteq> 0 \<and> r \<le> rentalIds s'
          \<and> x = (renter (rentals s' r), Rental.itemId (rentals s' r), startTime (rentals s' r),
          endTime (rentals s' r))"
        by (simp add: rs)
      then show ?thesis
        unfolding stored_rentals_def by blast
    qed
  qed
  with m show ?thesis
    unfolding rent(3) by simp
next
  case (update i p r s' u)
  with updateItemPrices_success [OF update(2)] show ?thesis
    by (simp add: stored_rentals_def)
next
  case (deactivate i s' u)
  with deactivateItem_success [OF deactivate(2)] show ?thesis
    by (simp add: stored_rentals_def)
qed

lemma stored_rentals_run_from:
  assumes "unat (rentalIds s) + length txs < 2 ^ 256"
  shows "stored_rentals (run txs s) = stored_rentals s \<union> set (rentals_made txs s)"
  using assms
proof (induction txs arbitrary: s)
  case Nil
  then show ?case by simp
next
  case (Cons tx txs)
  obtain e c where tx: "tx = (e, c)"
    by (cases tx)
  from Cons.prems have "rentalIds s \<noteq> - 1"
    by (auto intro!: not_max_uint256)
  then have st: "stored_rentals (exec e c s) = stored_rentals s \<union> set (made_by e c s)"
    by (rule stored_rentals_exec)
  from exec_counters [of e c s] Cons.prems
  have "unat (rentalIds (exec e c s)) + length txs < 2 ^ 256"
    by simp
  from Cons.IH [OF this] st show ?case
    by (auto simp: tx)
qed

lemma stored_rentals_init: "stored_rentals init = {}"
  by (auto simp: stored_rentals_def init_def)

text \<open>
  C3: in the storage reached by any run of calls from the constructor (fewer than
  \<open>2 ^ 256\<close> of them, the range of the rental counter), \<open>hasActiveRental\<close> for item
  \<open>i\<close> and user \<open>u\<close> is true exactly when the current time lies in the interval
  \<open>[startTime, endTime]\<close> of some rental that a successful \<open>rentItem\<close> of the run created
  for \<open>u\<close> on \<open>i\<close>. The loop reads the stored flag as well, but the flag is set at
  creation and no call clears it, so it never changes the answer.
\<close>

theorem hasActiveRental_window:
  assumes "length txs < 2 ^ 256"
  shows "hasActiveRental (run txs init) now i u \<longleftrightarrow>
     (\<exists>(u', i', start_t, end_t) \<in> set (rentals_made txs init).
        u' = u \<and> i' = i \<and> start_t \<le> now \<and> now \<le> end_t)"
proof -
  from assms have "wf_ledger (run txs init)"
    by (rule wf_ledger_run)
  moreover have "unat (rentalIds init) + length txs < 2 ^ 256"
    using assms by (simp add: init_def)
  then have "stored_rentals (run txs init) = set (rentals_made txs init)"
    using stored_rentals_run_from [of init txs] by (simp only: stored_rentals_init Un_empty_left)
  ultimately show ?thesis
    by (simp add: hasActiveRental_stored)
qed

lemma rent_txs_made: "rentals_made rent_txs init = [(11, 1, 1000, 130600)]"
proof -
  have "exec alice (CreateItem ''Paper A'' ''A paper'' ''blob-1'' 100 100) init = one_item"
    by (simp add: one_item_def)
  moreover note bob_rents
  ultimately show ?thesis
    by (simp add: rent_txs_def bob_def del: exec.simps)
qed

theorem hasActiveRental_window_witness:
  "length rent_txs < 2 ^ 256
   \<and> hasActiveRental (run rent_txs init) 1000 1 11
   \<and> hasActiveRental (run rent_txs init) 130600 1 11
   \<and> \<not> hasActiveRental (run rent_txs init) 130601 1 11
   \<and> \<not> hasActiveRental (run rent_txs init) 999 1 11
   \<and> \<not> hasActiveRental (run rent_txs init) 5000 1 10"
proof -
  have len: "length rent_txs < 2 ^ 256"
    by (simp add: rent_txs_def)
  note w = hasActiveRental_window [OF len, unfolded rent_txs_made]
  from w [of 1000 1 11] w [of 130600 1 11] w [of 130601 1 11] w [of 999 1 11] w [of 5000 1 10] len
  show ?thesis
    by simp
qed

text \<open>
  C10: in the storage reached by any run of calls from the constructor (fewer than
  \<open>2 ^ 256\<close> of them), \<open>getItem 0\<close> and \<open>getRental 0\<close> do not fail: the existence check
  only bounds the identifier from above, and they return the zero-valued record (zero
  address, numeric fields 0, inactive).
\<close>

theorem getItem_zero:
  assumes "length txs < 2 ^ 256"
  shows "getItem (run txs init) 0 = Inr zero_item \<and> getRental (run txs init) 0 = Inr zero_rental"
proof -
  from assms have "wf_ledger (run txs init)"
    by (rule wf_ledger_run)
  then show ?thesis
    by (simp add: wf_ledger_def getItem_def getRental_def require_def)
qed

theorem getItem_zero_witness:
  "length rent_txs < 2 ^ 256
   \<and> getItem (run rent_txs init) 0 = Inr zero_item
   \<and> getRental (run rent_txs init) 0 = Inr zero_rental
   \<and> IPItem.owner zero_item = 0 \<and> \<not> IPItem.isActive zero_item \<and> renter zero_rental = 0"
proof -
  have len: "length rent_txs < 2 ^ 256"
    by (simp add: rent_txs_def)
  from getItem_zero [OF len] len show ?thesis
    by (simp add: zero_item_def zero_rental_def)
qed

subsection \<open>Identifiers of created items\<close>

lemma createItems_ids:
  "createItems cs s = (ids, s') \<Longrightarrow>
     ids = map (\<lambda>k. itemIds s + of_nat k) [1..<Suc (length ids)]
     \<and> itemIds s' = itemIds s + of_nat (length ids) \<and> length ids \<le> length cs"
proof (induction cs arbitrary: s ids s')
  case Nil
  then show ?case by simp
next
  case (Cons a cs)
  obtain e t d b p r where a: "a = (e, t, d, b, p, r)"
    by (cases a)
  show ?case
  proof (cases "createItem e t d b p r s")
    case (Inl err)
    with Cons.prems a have "createItems cs s = (ids, s')"
      by simp
    from Cons.IH [OF this] show ?thesis
      by simp
  next
    case (Inr res)
    obtain s1 newItemId where res: "res = (s1, newItemId)"
      by (cases res)
    obtain ids1 s2 where rest: "createItems cs s1 = (ids1, s2)"
      by (cases "createItems cs s1")
    from Inr res rest Cons.prems a have ids: "ids = newItemId # ids1" and s': "s' = s2"
      by simp_all
    from createItem_success [OF Inr [unfolded res]]
    have new: "newItemId = itemIds s + 1" and s1: "itemIds s1 = itemIds s + 1"
      by simp_all
    note ih = Cons.IH [OF rest]
    have "[1..<Suc (Suc (length ids1))] = 1 # map Suc [1..<Suc (length ids1)]"
      by (simp add: upt_conv_Cons map_Suc_upt del: upt_Suc)
    then have "map (\<lambda>k. itemIds s + of_nat k) [1..<Suc (length ids)]
        = (itemIds s + 1) # map (\<lambda>k. itemIds s + 1 + of_nat k) [1..<Suc (length ids1)]"
      by (simp add: ids comp_def add.assoc del: upt_Suc)
    also have "\<dots> = newItemId # ids1"
      using ih by (simp add: new s1 del: upt_Suc)
    finally have "ids = map (\<lambda>k. itemIds s + of_nat k) [1..<Suc (length ids)]"
      by (simp add: ids)
    moreover from ih have "itemIds s' = itemIds s + of_nat (length ids)"
      by (simp add: s' ids s1 add.assoc)
    moreover from ih have "length ids \<le> length (a # cs)"
      by (simp add: ids)
    ultimately show ?thesis
      by blast
  qed
qed

lemma unat_of_nat_uint256: "k < 2 ^ 256 \<Longrightarrow> unat (of_nat k :: uint256) = k"
  by (simp add: unat_of_nat)

text \<open>
  C8: over any sequence of \<open>createItem\<close> calls from the constructor (fewer than
  \<open>2 ^ 256\<close> of them, the range of the counter), the identifiers returned by the calls
  that succeed are \<open>1, 2, \<dots>, n\<close> in this order, where \<open>n\<close> is the number of calls that
  succeeded, and \<open>getTotalItems\<close> is \<open>n\<close> at the end; each successful call returns the
  total before it plus one.
\<close>

theorem createItems_identifiers:
  assumes "length cs < 2 ^ 256"
  shows "map unat (fst (createItems cs init)) = [1..<Suc (length (fst (createItems cs init)))]
     \<and> unat (getTotalItems (snd (createItems cs init))) = length (fst (createItems cs init))
     \<and> (\<forall>e t d b p r s s' newItemId. createItem e t d b p r s = Inr (s', newItemId) \<longrightarrow>
           newItemId = getTotalItems s + 1 \<and> getTotalItems s' = newItemId)"
proof -
  obtain ids s' where r: "createItems cs init = (ids, s')"
    by (cases "createItems cs init")
  from createItems_ids [OF r]
  have ids: "ids = map (\<lambda>k. of_nat k) [1..<Suc (length ids)]"
    and tot: "itemIds s' = of_nat (length ids)" and len: "length ids \<le> length cs"
    by (simp_all add: init_def)
  from len assms have small: "length ids < 2 ^ 256"
    by simp
  have "map unat ids = map unat (map (\<lambda>k. of_nat k :: uint256) [1..<Suc (length ids)])"
    using ids by simp
  also have "\<dots> = map (\<lambda>k. k) [1..<Suc (length ids)]"
    unfolding map_map
  proof (rule map_cong [OF refl])
    fix k
    assume "k \<in> set [1..<Suc (length ids)]"
    then have "k \<le> length ids"
      by auto
    with small have "k < 2 ^ 256"
      by simp
    then show "(unat \<circ> (\<lambda>k. of_nat k :: uint256)) k = k"
      by (simp add: unat_of_nat_uint256)
  qed
  finally have a: "map unat ids = [1..<Suc (length ids)]"
    by simp
  from tot small have b: "unat (getTotalItems s') = length ids"
    by (simp add: getTotalItems_def unat_of_nat_uint256)
  have c: "newItemId = getTotalItems s + 1 \<and> getTotalItems s1 = newItemId"
    if "createItem e t d b p q s = Inr (s1, newItemId)" for e t d b p q s s1 newItemId
    using createItem_success [OF that] by (simp add: getTotalItems_def)
  from a b c show ?thesis
    unfolding r by auto
qed

theorem createItems_identifiers_witness:
  "length some_creates < 2 ^ 256
   \<and> fst (createItems some_creates init) = [1, 2]
   \<and> unat (getTotalItems (snd (createItems some_creates init))) = 2"
proof -
  have len: "length some_creates < 2 ^ 256"
    by (simp add: some_creates_def)
  have ids: "fst (createItems some_creates init) = [1, 2]"
    by (simp add: some_creates_def alice_def bob_def createItem_def init_def increment_def
        require_def nonpayable_def Let_def)
  from createItems_identifiers [OF len] ids len show ?thesis
    by simp
qed

subsection \<open>The item index\<close>

lemma run_append: "run (pre @ post) s = run post (run pre s)"
  by (induction pre arbitrary: s) auto

lemma userItems_exec: "set (userItems s a) \<subseteq> set (userItems (exec e c s) a)"
proof (cases rule: exec_cases [of e c s])
  case failed
  then show ?thesis by simp
next
  case (create t d b p r s' newItemId)
  with createItem_success [OF create(2)] show ?thesis
    by auto
next
  case (purchase i s' pays)
  with purchaseItem_success [OF purchase(2)] show ?thesis
    by auto
next
  case (rent i start_t end_t s' pays)
  from rentItem_success [OF rent(2)] have "userItems s' = userItems s"
    by blast
  with rent(3) show ?thesis
    by simp
next
  case (update i p r s' u)
  with updateItemPrices_success [OF update(2)] show ?thesis
    by simp
next
  case (deactivate i s' u)
  with deactivateItem_success [OF deactivate(2)] show ?thesis
    by simp
qed

lemma userItems_run: "set (userItems s a) \<subseteq> set (userItems (run txs s) a)"
proof (induction txs arbitrary: s)
  case Nil
  then show ?case by simp
next
  case (Cons tx txs)
  obtain e c where tx: "tx = (e, c)"
    by (cases tx)
  from userItems_exec [of s a e c] Cons.IH [of "exec e c s"] show ?case
    by (auto simp: tx)
qed

lemma owners_indexed_exec:
  assumes "owners_indexed s"
  shows "owners_indexed (exec e c s)"
proof (cases rule: exec_cases [of e c s])
  case failed
  with assms show ?thesis by simp
next
  case (create t d b p r s' newItemId)
  note ok = createItem_success [OF create(2)]
  have "i \<in> set (userItems s' (IPItem.owner (items s' i)))"
    if i: "i \<noteq> 0 \<and> i \<le> itemIds s'" for i
  proof (cases "i = itemIds s + 1")
    case True
    with ok show ?thesis
      by simp
  next
    case False
    have "i \<le> itemIds s"
    proof (cases "itemIds s = - 1")
      case True
      with ok i show ?thesis
        by simp
    next
      case nm: False
      from ok i have "i \<le> itemIds s + 1"
        by simp
      with succ_fresh(5) [OF nm, of i] False show ?thesis
        by simp
    qed
    with assms i have "i \<in> set (userItems s (IPItem.owner (items s i)))"
      unfolding owners_indexed_def by blast
    with False ok show ?thesis
      by auto
  qed
  then show ?thesis
    unfolding create(3) owners_indexed_def by blast
next
  case (purchase i s' pays)
  note ok = purchaseItem_success [OF purchase(2)]
  have "j \<in> set (userItems s' (IPItem.owner (items s' j)))"
    if j: "j \<noteq> 0 \<and> j \<le> itemIds s'" for j
  proof (cases "j = i")
    case True
    with ok show ?thesis
      by simp
  next
    case False
    from ok j have "j \<noteq> 0 \<and> j \<le> itemIds s"
      by simp
    with assms have "j \<in> set (userItems s (IPItem.owner (items s j)))"
      unfolding owners_indexed_def by blast
    with False ok show ?thesis
      by auto
  qed
  then show ?thesis
    unfolding purchase(3) owners_indexed_def by blast
next
  case (rent i start_t end_t s' pays)
  from rentItem_success [OF rent(2)] obtain cost where
    "itemIds s' = itemIds s" "userItems s' = userItems s"
    "items s' = (items s)(i := (items s i)\<lparr>totalRentals := totalRentals (items s i) + 1,
                                           totalRevenue := totalRevenue (items s i) + cost\<rparr>)"
    by blast
  with assms show ?thesis
    unfolding rent(3) owners_indexed_def by simp
next
  case (update i p r s' u)
  with updateItemPrices_success [OF update(2)] assms show ?thesis
    unfolding owners_indexed_def by auto
next
  case (deactivate i s' u)
  with deactivateItem_success [OF deactivate(2)] assms show ?thesis
    unfolding owners_indexed_def by auto
qed

lemma owners_indexed_run: "owners_indexed s \<Longrightarrow> owners_indexed (run txs s)"
proof (induction txs arbitrary: s)
  case Nil
  then show ?case by simp
next
  case (Cons tx txs)
  obtain e c where tx: "tx = (e, c)"
    by (cases tx)
  from Cons.prems have "owners_indexed (exec e c s)"
    by (rule owners_indexed_exec)
  from Cons.IH [OF this] show ?case
    by (simp add: tx)
qed

lemma owners_indexed_init: "owners_indexed init"
  by (simp add: owners_indexed_def init_def)

text \<open>
  C9: a successful \<open>purchaseItem\<close>, in the storage reached by any run of calls from the
  constructor, appends the item to the item index of the buyer and leaves the index of
  every other account as it is; no entry is removed, and every account that owned the
  item at some earlier point of the run still has it in its index after the purchase.
\<close>

theorem purchaseItem_index:
  assumes "purchaseItem e i (run txs init) = Inr (s', pays)"
  shows "getUserItems s' (msg_sender e) = getUserItems (run txs init) (msg_sender e) @ [i]
     \<and> (\<forall>a. a \<noteq> msg_sender e \<longrightarrow> getUserItems s' a = getUserItems (run txs init) a)
     \<and> (\<forall>a. i \<in> set (getUserItems (run txs init) a) \<longrightarrow> i \<in> set (getUserItems s' a))
     \<and> (\<forall>pre post. txs = pre @ post \<and> i \<noteq> 0 \<and> i \<le> itemIds (run pre init) \<longrightarrow>
           i \<in> set (getUserItems s' (IPItem.owner (items (run pre init) i))))"
proof -
  note ok = purchaseItem_success [OF assms]
  from ok have ui: "userItems s' = (userItems (run txs init))
      (msg_sender e := userItems (run txs init) (msg_sender e) @ [i])"
    by simp
  have keep: "i \<in> set (userItems s' a)" if "i \<in> set (userItems (run txs init) a)" for a
    using that by (simp add: ui)
  have ever: "i \<in> set (userItems s' (IPItem.owner (items (run pre init) i)))"
    if "txs = pre @ post \<and> i \<noteq> 0 \<and> i \<le> itemIds (run pre init)" for pre post
  proof -
    have "owners_indexed (run pre init)"
      using owners_indexed_init by (rule owners_indexed_run)
    with that have "i \<in> set (userItems (run pre init) (IPItem.owner (items (run pre init) i)))"
      unfolding owners_indexed_def by blast
    with userItems_run [of "run pre init" _ post] that
    have "i \<in> set (userItems (run txs init) (IPItem.owner (items (run pre init) i)))"
      by (auto simp: run_append)
    then show ?thesis
      by (rule keep)
  qed
  from ui keep ever show ?thesis
    by (simp add: getUserItems_def)
qed

theorem purchaseItem_index_witness:
  "\<exists>s' pays. purchaseItem bob 1 (run [(alice, CreateItem ''Paper A'' ''A paper'' ''blob-1'' 100 100)] init)
       = Inr (s', pays)
     \<and> IPItem.owner (items one_item 1) = 10 \<and> IPItem.owner (items s' 1) = 11
     \<and> getUserItems s' 11 = [1] \<and> getUserItems s' 10 = [1]
     \<and> 1 \<in> set (getUserItems s' (IPItem.owner (items one_item 1)))"
proof -
  let ?txs = "[(alice, CreateItem ''Paper A'' ''A paper'' ''blob-1'' 100 100)]"
  have run1: "run ?txs init = one_item"
    by (simp add: one_item_def)
  have "\<not> isl (purchaseItem bob 1 one_item)"
    by (simp add: one_item_eq bob_def purchaseItem_def nonReentrant_def itemExists_def
        require_def bind_err_def transfer_def Let_def)
  then obtain s' pays where r: "purchaseItem bob 1 one_item = Inr (s', pays)"
    by (cases "purchaseItem bob 1 one_item") auto
  then have r': "purchaseItem bob 1 (run ?txs init) = Inr (s', pays)"
    by (simp only: run1)
  have v: "msg_sender bob = 11" "getUserItems one_item 11 = []" "getUserItems one_item 10 = [1]"
    "IPItem.owner (items one_item 1) = 10" "itemIds one_item = 1"
    by (simp_all add: bob_def one_item_eq getUserItems_def)
  note idx = purchaseItem_index [OF r']
  from idx [unfolded run1] v have a: "getUserItems s' 11 = [1] \<and> getUserItems s' 10 = [1]"
    by simp
  from idx have "?txs = ?txs @ [] \<and> (1 :: uint256) \<noteq> 0 \<and> 1 \<le> itemIds (run ?txs init) \<longrightarrow>
      1 \<in> set (getUserItems s' (IPItem.owner (items (run ?txs init) 1)))"
    by blast
  then have b: "1 \<in> set (getUserItems s' (IPItem.owner (items one_item 1)))"
    unfolding run1 v(5) by simp
  from purchaseItem_success [OF r] have "IPItem.owner (items s' 1) = 11"
    by (simp add: v)
  with a b r' v(4) show ?thesis
    by blast
qed

subsection \<open>The page of active items\<close>

lemma collect_inactive:
  "\<not> IPItem.isActive (items s i) \<Longrightarrow> collect s i (arr, count) = Inr (arr, count)"
  by (simp add: collect_def)

lemma collect_active:
  assumes "IPItem.isActive (items s i)" and "unat count < length arr" and "length arr < 2 ^ 256"
  shows "collect s i (arr, count) = Inr (arr[unat count := items s i], count + 1)"
    and "unat (count + 1) = Suc (unat count)"
proof -
  from assms(2,3) have "unat count + unat (1 :: uint256) < 2 ^ 256"
    by simp
  then show "collect s i (arr, count) = Inr (arr[unat count := items s i], count + 1)"
    using assms(1,2) by (simp add: collect_def checked_add_def bind_err_def)
  from assms(2,3) have "count \<noteq> - 1"
    by (auto simp: unsigned_minus_1_eq_mask mask_eq_exp_minus_1)
  then show "unat (count + 1) = Suc (unat count)"
    by (rule unat_succ)
qed

lemma scan_loop_ok:
  assumes "end_i \<noteq> - 1" and "unat count + (Suc (unat end_i) - unat i) \<le> length arr"
    and "length arr < 2 ^ 256"
  shows "\<exists>arr' count'. scan_loop s i end_i (arr, count) = Inr (arr', count')
     \<and> length arr' = length arr \<and> unat count' \<le> length arr'
     \<and> take (unat count') arr' = take (unat count) arr @
          filter IPItem.isActive (map (\<lambda>k. items s (of_nat k)) [unat i..<Suc (unat end_i)])"
  using assms
proof (induction s i end_i "(arr, count)" arbitrary: arr count rule: scan_loop.induct)
  case (1 s i end_i)
  show ?case
  proof (cases "i \<le> end_i")
    case False
    then have "Suc (unat end_i) \<le> unat i"
      by (simp add: word_le_nat_alt)
    moreover from "1.prems"(2) have "unat count \<le> length arr"
      by simp
    ultimately show ?thesis
      using False by (simp add: scan_loop.simps [of s i end_i])
  next
    case True
    then have le: "unat i \<le> unat end_i"
      by (simp add: word_le_nat_alt)
    from True "1.prems"(1) have nm: "i \<noteq> - 1"
      by (metis word_order.extremum_unique)
    have ui: "unat (i + 1) = Suc (unat i)"
      using nm by (rule unat_succ)
    have win: "[unat i..<Suc (unat end_i)] = unat i # [unat (i + 1)..<Suc (unat end_i)]"
      using le by (simp add: upt_conv_Cons ui del: upt_Suc)
    show ?thesis
    proof (cases "IPItem.isActive (items s i)")
      case False
      note c = collect_inactive [OF False, of arr count]
      from "1.prems" le have "unat count + (Suc (unat end_i) - unat (i + 1)) \<le> length arr"
        by (simp add: ui)
      from "1.hyps" [OF True c nm "1.prems"(1) this "1.prems"(3)]
      obtain arr' count' where r: "scan_loop s (i + 1) end_i (arr, count) = Inr (arr', count')"
        "length arr' = length arr" "unat count' \<le> length arr'"
        "take (unat count') arr' = take (unat count) arr @
          filter IPItem.isActive (map (\<lambda>k. items s (of_nat k)) [unat (i + 1)..<Suc (unat end_i)])"
        by blast
      have "scan_loop s i end_i (arr, count) = Inr (arr', count')"
        using True c nm r(1) by (simp add: scan_loop.simps [of s i end_i])
      with r False show ?thesis
        by (simp add: win del: upt_Suc)
    next
      case act: True
      from "1.prems"(2) le have lt: "unat count < length arr"
        by simp
      note c = collect_active [OF act lt "1.prems"(3)]
      from "1.prems" le have "unat (count + 1) + (Suc (unat end_i) - unat (i + 1))
          \<le> length (arr[unat count := items s i])"
        by (simp add: ui c(2))
      moreover have "length (arr[unat count := items s i]) < 2 ^ 256"
        using "1.prems"(3) by simp
      ultimately obtain arr' count' where
        r: "scan_loop s (i + 1) end_i (arr[unat count := items s i], count + 1) = Inr (arr', count')"
        "length arr' = length (arr[unat count := items s i])" "unat count' \<le> length arr'"
        "take (unat count') arr' = take (unat (count + 1)) (arr[unat count := items s i]) @
          filter IPItem.isActive (map (\<lambda>k. items s (of_nat k)) [unat (i + 1)..<Suc (unat end_i)])"
        using "1.hyps" [OF True c(1) nm "1.prems"(1)] by blast
      have "scan_loop s i end_i (arr, count) = Inr (arr', count')"
        using True c(1) nm r(1) by (simp add: scan_loop.simps [of s i end_i])
      moreover have "take (unat (count + 1)) (arr[unat count := items s i])
          = take (unat count) arr @ [items s i]"
        using lt by (simp add: c(2) take_Suc_conv_app_nth)
      ultimately show ?thesis
        using r act by (simp add: win del: upt_Suc)
    qed
  qed
qed

lemma copy_loop_ok:
  assumes "unat count \<le> length arr" and "length res = unat count" and "i \<le> count"
    and "take (unat i) res = take (unat i) arr"
  shows "copy_loop arr count i res = Inr (take (unat count) arr)"
  using assms
proof (induction arr count i res rule: copy_loop.induct)
  case (1 arr count i res)
  show ?case
  proof (cases "i < count")
    case False
    with "1.prems"(3) have "i = count"
      by simp
    with "1.prems"(2,4) have "res = take (unat count) arr"
      by simp
    with False show ?thesis
      by (simp add: copy_loop.simps [of arr count i res])
  next
    case True
    then have lt: "unat i < unat count"
      by (simp add: word_less_nat_alt)
    from True have "i \<noteq> - 1"
      by (metis word_order.extremum_strict)
    then have ui: "unat (i + 1) = Suc (unat i)"
      by (rule unat_succ)
    from lt "1.prems"(1,2) have b: "unat i < length res \<and> unat i < length arr"
      by simp
    have "take (unat (i + 1)) (res[unat i := arr ! unat i]) = take (unat (i + 1)) arr"
      using b "1.prems"(4) by (simp add: ui take_Suc_conv_app_nth)
    moreover have "i + 1 \<le> count"
      using lt by (simp add: word_le_nat_alt ui)
    moreover have "length (res[unat i := arr ! unat i]) = unat count"
      using "1.prems"(2) by simp
    ultimately have "copy_loop arr count (i + 1) (res[unat i := arr ! unat i])
        = Inr (take (unat count) arr)"
      using "1.IH" [OF True b "1.prems"(1)] by blast
    with True b show ?thesis
      by (simp add: copy_loop.simps [of arr count i res])
  qed
qed

lemma getActiveItems_ok:
  assumes lt: "offset < itemIds s" and nov: "unat offset + unat limit < 2 ^ 256"
    and nm: "itemIds s \<noteq> - 1"
  shows "getActiveItems s offset limit =
     Inr (filter IPItem.isActive (map (\<lambda>k. items s (of_nat k))
            (spec_window (unat offset) (unat limit) (unat (itemIds s)))))"
proof -
  define end_i where "end_i = (if itemIds s < offset + limit then itemIds s else offset + limit)"
  have ue0: "unat (offset + limit) = unat offset + unat limit"
    using nov by (rule unat_uint256_add)
  have ue: "unat end_i = min (unat offset + unat limit) (unat (itemIds s))"
    by (simp add: end_i_def ue0 word_less_nat_alt)
  from lt have ult: "unat offset < unat (itemIds s)"
    by (simp add: word_less_nat_alt)
  have le: "offset \<le> end_i"
    using ult by (simp add: word_le_nat_alt ue)
  have "end_i \<le> itemIds s"
    by (simp add: word_le_nat_alt ue)
  with nm have enm: "end_i \<noteq> - 1"
    by (metis word_order.extremum_unique)
  from lt have "offset \<noteq> - 1"
    by (metis word_order.extremum_strict)
  then have uf: "unat (offset + 1) = Suc (unat offset)"
    by (rule unat_succ)
  have un: "unat (end_i - offset) = unat end_i - unat offset"
    using le by (rule unat_sub)
  have c1: "checked_add offset limit = Inr (offset + limit)"
    using nov by (simp add: checked_add_def)
  have c2: "checked_sub end_i offset = Inr (end_i - offset)"
    using le by (simp add: checked_sub_def)
  have "unat (itemIds s) < 2 ^ 256"
    using unsigned_less [of "itemIds s"] by simp
  with ult have "unat offset + unat (1 :: uint256) < 2 ^ 256"
    by simp
  then have c3: "checked_add offset 1 = Inr (offset + 1)"
    by (simp add: checked_add_def)
  have "unat (0 :: uint256) + (Suc (unat end_i) - unat (offset + 1))
      \<le> length (replicate (unat (end_i - offset)) zero_item)"
    by (simp add: uf un)
  moreover have "unat (end_i - offset) < 2 ^ 256"
    using unsigned_less [of "end_i - offset"] by simp
  then have "length (replicate (unat (end_i - offset)) zero_item) < 2 ^ 256"
    by (simp only: length_replicate)
  ultimately have "\<exists>arr' count'.
      scan_loop s (offset + 1) end_i (replicate (unat (end_i - offset)) zero_item, 0) = Inr (arr', count')
      \<and> length arr' = length (replicate (unat (end_i - offset)) zero_item)
      \<and> unat count' \<le> length arr'
      \<and> take (unat count') arr' = take (unat (0 :: uint256)) (replicate (unat (end_i - offset)) zero_item) @
          filter IPItem.isActive (map (\<lambda>k. items s (of_nat k)) [unat (offset + 1)..<Suc (unat end_i)])"
    by (rule scan_loop_ok [OF enm])
  then obtain arr' count' where
    sc: "scan_loop s (offset + 1) end_i (replicate (unat (end_i - offset)) zero_item, 0) = Inr (arr', count')"
    and len: "unat count' \<le> length arr'"
    and tk: "take (unat count') arr' = take (unat (0 :: uint256)) (replicate (unat (end_i - offset)) zero_item) @
          filter IPItem.isActive (map (\<lambda>k. items s (of_nat k)) [unat (offset + 1)..<Suc (unat end_i)])"
    by (elim exE conjE)
  have cp: "copy_loop arr' count' 0 (replicate (unat count') zero_item) = Inr (take (unat count') arr')"
    using len by (intro copy_loop_ok) simp_all
  have "getActiveItems s offset limit = Inr (take (unat count') arr')"
    unfolding getActiveItems_def Let_def require_def bind_err_def
    apply (simp only: lt if_True c1 sum.case)
    apply (fold end_i_def)
    apply (simp only: c2 c3 sc cp sum.case prod.case)
    done
  also have "take (unat count') arr' = filter IPItem.isActive (map (\<lambda>k. items s (of_nat k))
            (spec_window (unat offset) (unat limit) (unat (itemIds s))))"
    unfolding tk by (simp add: uf ue spec_window_def del: upt_Suc)
  finally show ?thesis .
qed

text \<open>
  What \<open>getActiveItems\<close> returns, case by case: it reverts when the offset is not below
  the total; with the offset below the total it panics when \<open>offset + limit\<close> does not
  fit 256 bits; otherwise (the item counter not at its largest value) it returns the
  active items among the identifiers \<open>offset + 1 .. min (offset + limit) total\<close>, in
  identifier order, so the page can be shorter than the limit.
\<close>

lemma getActiveItems_window:
  "(\<not> offset < itemIds s \<longrightarrow>
      getActiveItems s offset limit = Inl (Revert ''Offset out of bounds''))
   \<and> (offset < itemIds s \<and> 2 ^ 256 \<le> unat offset + unat limit \<longrightarrow>
      getActiveItems s offset limit = Inl Panic)
   \<and> (offset < itemIds s \<and> unat offset + unat limit < 2 ^ 256 \<and> itemIds s \<noteq> - 1 \<longrightarrow>
      getActiveItems s offset limit =
        Inr (filter IPItem.isActive (map (\<lambda>k. items s (of_nat k))
               (spec_window (unat offset) (unat limit) (unat (itemIds s))))))"
proof (intro conjI impI)
  assume "\<not> offset < itemIds s"
  then show "getActiveItems s offset limit = Inl (Revert ''Offset out of bounds'')"
    by (simp add: getActiveItems_def require_def)
next
  assume "offset < itemIds s \<and> 2 ^ 256 \<le> unat offset + unat limit"
  then have "offset < itemIds s" "\<not> unat offset + unat limit < 2 ^ 256"
    by simp_all
  then show "getActiveItems s offset limit = Inl Panic"
    by (simp add: getActiveItems_def require_def bind_err_def checked_add_def)
next
  assume "offset < itemIds s \<and> unat offset + unat limit < 2 ^ 256 \<and> itemIds s \<noteq> - 1"
  then show "getActiveItems s offset limit =
        Inr (filter IPItem.isActive (map (\<lambda>k. items s (of_nat k))
               (spec_window (unat offset) (unat limit) (unat (itemIds s)))))"
    by (simp add: getActiveItems_ok)
qed


lemma five_items_facts:
  "itemIds five_items = 5"
  "IPItem.isActive (items five_items 1)" "IPItem.isActive (items five_items 2)"
  "\<not> IPItem.isActive (items five_items 3)"
  "IPItem.isActive (items five_items 4)" "IPItem.isActive (items five_items 5)"
  "map (\<lambda>k. IPItem.itemId (items five_items k)) [1, 2, 4, 5] = [1, 2, 4, 5]"
  by (simp_all add: five_items_def alice_def createItem_def deactivateItem_def storage_after_def
      init_def increment_def require_def nonpayable_def onlyItemOwner_def itemExists_def Let_def)

text \<open>
  Over five items of which the third is deactivated, offset 0 and limit 5 give the items
  1, 2, 4 and 5; offset 5 is out of bounds.
\<close>

lemma getActiveItems_five_items:
  "getActiveItems five_items 0 5
     = Inr [items five_items 1, items five_items 2, items five_items 4, items five_items 5]
   \<and> map IPItem.itemId (projr (getActiveItems five_items 0 5)) = [1, 2, 4, 5]
   \<and> getActiveItems five_items 5 5 = Inl (Revert ''Offset out of bounds'')"
proof -
  have w: "spec_window 0 5 5 = [1, 2, 3, 4, 5]"
    by (simp add: spec_window_def upt_rec)
  have h1: "(0 :: uint256) < itemIds five_items \<and> unat (0 :: uint256) + unat (5 :: uint256) < 2 ^ 256
      \<and> itemIds five_items \<noteq> - 1"
    by (simp add: five_items_facts(1))
  have h2: "\<not> (5 :: uint256) < itemIds five_items"
    by (simp add: five_items_facts(1))
  from getActiveItems_window [of 0 five_items 5] h1
  have "getActiveItems five_items 0 5
     = Inr [items five_items 1, items five_items 2, items five_items 4, items five_items 5]"
    by (simp add: w five_items_facts)
  moreover from this five_items_facts(7)
  have "map IPItem.itemId (projr (getActiveItems five_items 0 5)) = [1, 2, 4, 5]"
    by simp
  moreover from getActiveItems_window [of 5 five_items 5] h2
  have "getActiveItems five_items 5 5 = Inl (Revert ''Offset out of bounds'')"
    by simp
  ultimately show ?thesis
    by simp
qed

text \<open>
  C7 fails on the code at one kind of input. On the ledger with two active items, offset 1
  is below the total and the window \<open>offset + 1 .. min (offset + limit) total\<close> for the
  largest limit is the single identifier 2, an active item; yet \<open>getActiveItems\<close> panics:
  the sum of offset and limit is computed with checked arithmetic before it is clamped to
  the total. With limit 1 the same offset returns item 2.
\<close>

theorem getActiveItems_overflow:
  "(1 :: uint256) < itemIds two_items
   \<and> spec_window (unat (1 :: uint256)) (unat (- 1 :: uint256)) (unat (itemIds two_items)) = [2]
   \<and> IPItem.isActive (items two_items (of_nat 2))
   \<and> getActiveItems two_items 1 (- 1) = Inl Panic
   \<and> getActiveItems two_items 1 1 = Inr [items two_items 2]"
proof -
  have total: "itemIds two_items = 2"
    by (simp add: two_items_eq)
  have act: "IPItem.isActive (items two_items (of_nat 2))"
    by (simp add: two_items_eq)
  have w: "spec_window (unat (1 :: uint256)) (unat (- 1 :: uint256)) (unat (itemIds two_items)) = [2]"
    by (simp add: total spec_window_def unsigned_minus_1_eq_mask mask_eq_exp_minus_1 upt_rec)
  have w1: "spec_window (unat (1 :: uint256)) (unat (1 :: uint256)) (unat (itemIds two_items)) = [2]"
    by (simp add: total spec_window_def upt_rec)
  have p: "getActiveItems two_items 1 (- 1) = Inl Panic"
    by (simp add: total getActiveItems_def require_def bind_err_def checked_add_def
        unsigned_minus_1_eq_mask mask_eq_exp_minus_1)
  have h: "(1 :: uint256) < itemIds two_items" "unat (1 :: uint256) + unat (1 :: uint256) < 2 ^ 256"
    "itemIds two_items \<noteq> - 1"
    by (simp_all add: total)
  have "getActiveItems two_items 1 1 = Inr (filter IPItem.isActive
      (map (\<lambda>k. items two_items (of_nat k))
         (spec_window (unat (1 :: uint256)) (unat (1 :: uint256)) (unat (itemIds two_items)))))"
    using h by (rule getActiveItems_ok)
  also have "\<dots> = Inr [items two_items 2]"
    unfolding w1 using act by simp
  finally have q: "getActiveItems two_items 1 1 = Inr [items two_items 2]" .
  from h(1) w act p q show ?thesis
    by blast
qed


end
